theory Spec2Isabelle
  imports Main "HOL-Library.Word"
begin

section \<open>Strings and values of the host language\<close>

text \<open>
  The program is TypeScript. Its strings are sequences of 16-bit code units, so a string
  is a list of 16-bit words; \<open>ustr\<close> turns an ASCII literal into such a list. All
  comparisons of the source (\<open>===\<close>, \<open>includes\<close>, the classes of the regular
  expression) work code unit by code unit, and so do the definitions below.
\<close>

type_synonym code_unit = "16 word"
type_synonym jsstring = "code_unit list"

definition ustr :: "string \<Rightarrow> jsstring" where
  "ustr s = map of_char s"

text \<open>
  The values a parameter can hold. Numbers are modelled as integers plus \<open>NaN\<close>: the only
  numbers the program itself makes come from \<open>parseInt\<close>. (The source's numbers are
  doubles: a digit string beyond \<open>2^53\<close> is rounded there, and kept exact here.)
  \<open>VObj\<close> stands for any non-array object.
\<close>

datatype jsval =
    VUndefined
  | VNull
  | VBool bool
  | VNum int
  | VNaN
  | VStr jsstring
  | VArr "jsval list"
  | VObj

text \<open>Truthiness, as \<open>!x\<close> and \<open>Boolean(x)\<close> decide it.\<close>

fun truthy :: "jsval \<Rightarrow> bool" where
  "truthy VUndefined = False"
| "truthy VNull = False"
| "truthy (VBool b) = b"
| "truthy (VNum n) = (n \<noteq> 0)"
| "truthy VNaN = False"
| "truthy (VStr s) = (s \<noteq> [])"
| "truthy (VArr xs) = True"
| "truthy VObj = True"

text \<open>An optional string argument (\<open>input?: string\<close>): \<open>None\<close> is \<open>undefined\<close>.\<close>

definition falsy :: "jsstring option \<Rightarrow> bool" where
  "falsy input = (case input of None \<Rightarrow> True | Some s \<Rightarrow> s = [])"

datatype error =
    InvalidPath jsstring
  | MissingRequired jsstring
  | ObjectParameter
  | URIError
  | TypeError

subsection \<open>\<open>split\<close>, \<open>filter(Boolean)\<close> and \<open>join\<close>\<close>

text \<open>\<open>s.split(sep)\<close> for a separator of one code unit: the empty string gives \<open>['']\<close>.\<close>

fun js_split :: "'a \<Rightarrow> 'a list \<Rightarrow> 'a list list" where
  "js_split sep [] = [[]]"
| "js_split sep (c # cs) =
     (if c = sep then [] # js_split sep cs
      else (case js_split sep cs of
              w # ws \<Rightarrow> (c # w) # ws
            | [] \<Rightarrow> [[c]]))"

definition filter_Boolean :: "'a list list \<Rightarrow> 'a list list" where
  "filter_Boolean ws = filter (\<lambda>w. w \<noteq> []) ws"

fun join :: "'a \<Rightarrow> 'a list list \<Rightarrow> 'a list" where
  "join sep [] = []"
| "join sep [w] = w"
| "join sep (w # v # ws) = w @ sep # join sep (v # ws)"

abbreviation slash :: code_unit where "slash \<equiv> 0x2F"
abbreviation colon :: code_unit where "colon \<equiv> 0x3A"
abbreviation percent :: code_unit where "percent \<equiv> 0x25"

text \<open>\<open>s.split('/').filter(Boolean)\<close>, used by \<open>compile\<close> and by \<open>parse\<close>.\<close>

definition segments :: "jsstring \<Rightarrow> jsstring list" where
  "segments s = filter_Boolean (js_split slash s)"

subsection \<open>The regular expression of \<open>compile\<close>\<close>

text \<open>
  \<open>/:(\w+)(<[\w|]+>)?([+*?])?/\<close>, applied with \<open>block.match(regexp)\<close>: no anchor and no
  flag, so the match is the leftmost one. After the colon every quantifier is greedy and
  everything that follows it is optional, so the first alternative the engine tries at
  each step is the one it keeps: the longest run of word characters, then the generic if
  one stands there, then the modificator if one stands there. A \<open>>\<close> is not in
  \<open>[\w|]\<close>, so backtracking inside the generic cannot help.
\<close>

definition is_word :: "code_unit \<Rightarrow> bool" where
  "is_word c = ((0x30 \<le> c \<and> c \<le> 0x39) \<or> (0x41 \<le> c \<and> c \<le> 0x5A) \<or> c = 0x5F
                 \<or> (0x61 \<le> c \<and> c \<le> 0x7A))"

definition is_generic_char :: "code_unit \<Rightarrow> bool" where
  "is_generic_char c = (is_word c \<or> c = 0x7C)"

definition is_modificator :: "code_unit \<Rightarrow> bool" where
  "is_modificator c = (c = 0x2B \<or> c = 0x2A \<or> c = 0x3F)"

text \<open>\<open>(<[\w|]+>)\<close> at the head of a string: the text of the group and what follows it.\<close>

definition match_generic :: "jsstring \<Rightarrow> (jsstring \<times> jsstring) option" where
  "match_generic s =
     (case s of
        [] \<Rightarrow> None
      | c # cs \<Rightarrow>
          if c = 0x3C then
            (case dropWhile is_generic_char cs of
               [] \<Rightarrow> None
             | d # rest \<Rightarrow>
                 if d = 0x3E \<and> takeWhile is_generic_char cs \<noteq> []
                 then Some (c # takeWhile is_generic_char cs @ [d], rest)
                 else None)
          else None)"

text \<open>The three groups of a match: \<open>matches[1]\<close>, \<open>matches[2]\<close>, \<open>matches[3]\<close>.\<close>

record matches =
  m_name :: jsstring
  m_generic :: "jsstring option"
  m_modificator :: "jsstring option"

definition match_modificator :: "jsstring \<Rightarrow> jsstring option" where
  "match_modificator s =
     (case s of [] \<Rightarrow> None | c # cs \<Rightarrow> if is_modificator c then Some [c] else None)"

text \<open>The expression matched at the head of a string.\<close>

definition match_here :: "jsstring \<Rightarrow> matches option" where
  "match_here s =
     (case s of
        [] \<Rightarrow> None
      | c # cs \<Rightarrow>
          if c = colon \<and> takeWhile is_word cs \<noteq> [] then
            (case match_generic (dropWhile is_word cs) of
               Some (g, rest) \<Rightarrow>
                 Some \<lparr>m_name = takeWhile is_word cs, m_generic = Some g,
                       m_modificator = match_modificator rest\<rparr>
             | None \<Rightarrow>
                 Some \<lparr>m_name = takeWhile is_word cs, m_generic = None,
                       m_modificator = match_modificator (dropWhile is_word cs)\<rparr>)
          else None)"

text \<open>\<open>block.match(regexp)\<close>: the leftmost position where the expression matches.\<close>

fun regexp_match :: "jsstring \<Rightarrow> matches option" where
  "regexp_match [] = None"
| "regexp_match (c # cs) =
     (case match_here (c # cs) of
        Some m \<Rightarrow> Some m
      | None \<Rightarrow> regexp_match cs)"

section \<open>The compiler\<close>

datatype value_type = TString | TNumber | TUnion "jsstring list"

record array_rule =
  minLength :: "nat option"
  maxLength :: "nat option"

record RawRules =
  required :: bool
  vtype :: value_type
  array :: "array_rule option"

text \<open>
  A compiled block. The source stores in a parameter block its name, \<open>rules.required\<close>
  and two closures, \<open>generateValidator(rules)\<close> and \<open>generateParser(rules)\<close>; all three
  are functions of the rules, so the block keeps the rules and the closures are applied
  where the source calls them.
\<close>

datatype block =
    Parameter (name: jsstring) (rules: RawRules)
  | Part (val: jsstring)

text \<open>The type a generic names: \<open>number\<close>, a union when it holds a \<open>|\<close>, a string otherwise.\<close>

definition generic_type :: "jsstring option \<Rightarrow> value_type" where
  "generic_type generic =
     (if falsy generic then TString
      else (case generic of
              None \<Rightarrow> TString
            | Some g \<Rightarrow>
                (let t = remove1 0x3E (remove1 0x3C g);
                     ty = (if t = ustr ''number'' then TNumber else TString)
                 in if 0x7C \<in> set t then TUnion (filter_Boolean (js_split 0x7C t))
                    else ty)))"

text \<open>The \<open>switch (modificator)\<close>.\<close>

definition apply_modificator :: "jsstring option \<Rightarrow> RawRules \<Rightarrow> RawRules" where
  "apply_modificator modificator r =
     (if modificator = Some [0x2A] then r\<lparr>array := Some \<lparr>minLength = None, maxLength = None\<rparr>\<rparr>
      else if modificator = Some [0x2B] then
        r\<lparr>array := Some \<lparr>minLength = Some 1, maxLength = None\<rparr>\<rparr>
      else if modificator = Some [0x3F] then r\<lparr>required := False\<rparr>
      else r)"

definition make_rules :: "matches \<Rightarrow> RawRules" where
  "make_rules m =
     apply_modificator (m_modificator m)
       \<lparr>required = True, vtype = generic_type (m_generic m), array = None\<rparr>"

text \<open>The loop of \<open>compile\<close> over the tokens of the template; \<open>path\<close> is kept for the error.\<close>

fun compile_blocks :: "jsstring \<Rightarrow> jsstring list \<Rightarrow> error + block list" where
  "compile_blocks path [] = Inr []"
| "compile_blocks path (b # bs) =
     (if b = [] then compile_blocks path bs
      else (case regexp_match b of
              None \<Rightarrow>
                (case compile_blocks path bs of
                   Inl e \<Rightarrow> Inl e
                 | Inr r \<Rightarrow> Inr (Part b # r))
            | Some m \<Rightarrow>
                if m_name m = [] then Inl (InvalidPath path)
                else (case compile_blocks path bs of
                        Inl e \<Rightarrow> Inl e
                      | Inr r \<Rightarrow> Inr (Parameter (m_name m) (make_rules m) # r))))"

definition compile :: "jsstring \<Rightarrow> error + block list" where
  "compile path = compile_blocks path (segments path)"

section \<open>Validators and parsers\<close>

subsection \<open>\<open>parseInt\<close>\<close>

text \<open>
  \<open>parseInt(input)\<close> with no radix: leading white space is skipped, then a sign, then
  \<open>0x\<close> or \<open>0X\<close> selects radix 16, and the longest run of digits of the radix is read;
  the result is \<open>NaN\<close> when that run is empty.
\<close>

definition is_whitespace :: "code_unit \<Rightarrow> bool" where
  "is_whitespace c =
     (c \<in> set [0x09, 0x0A, 0x0B, 0x0C, 0x0D, 0x20, 0xA0, 0x1680, 0x2028, 0x2029, 0x202F,
                0x205F, 0x3000, 0xFEFF]
      \<or> (0x2000 \<le> c \<and> c \<le> 0x200A))"

definition digit_value :: "code_unit \<Rightarrow> nat option" where
  "digit_value c =
     (if 0x30 \<le> c \<and> c \<le> 0x39 then Some (unat c - 0x30)
      else if 0x61 \<le> c \<and> c \<le> 0x7A then Some (unat c - 0x61 + 10)
      else if 0x41 \<le> c \<and> c \<le> 0x5A then Some (unat c - 0x41 + 10)
      else None)"

definition is_digit :: "nat \<Rightarrow> code_unit \<Rightarrow> bool" where
  "is_digit radix c = (case digit_value c of None \<Rightarrow> False | Some d \<Rightarrow> d < radix)"

definition digits_value :: "nat \<Rightarrow> jsstring \<Rightarrow> nat" where
  "digits_value radix z =
     foldl (\<lambda>acc c. acc * radix + (case digit_value c of None \<Rightarrow> 0 | Some d \<Rightarrow> d)) 0 z"

definition parseInt :: "jsstring \<Rightarrow> jsval" where
  "parseInt input =
     (let s = dropWhile is_whitespace input;
          negative = (case s of [] \<Rightarrow> False | c # cs \<Rightarrow> c = 0x2D);
          s1 = (case s of [] \<Rightarrow> [] | c # cs \<Rightarrow> if c = 0x2B \<or> c = 0x2D then cs else s);
          hex = (case s1 of
                   [] \<Rightarrow> False
                 | c # cs \<Rightarrow>
                     (case cs of
                        [] \<Rightarrow> False
                      | x # xs \<Rightarrow> c = 0x30 \<and> (x = 0x78 \<or> x = 0x58)));
          radix = (if hex then 16 else 10);
          z = takeWhile (is_digit radix) (if hex then drop 2 s1 else s1)
      in if z = [] then VNaN
         else VNum ((if negative then - 1 else 1) * int (digits_value radix z)))"

subsection \<open>\<open>createControls\<close>\<close>

text \<open>\<open>xs[k]\<close> on an array: \<open>undefined\<close> out of range.\<close>

definition at :: "'a list \<Rightarrow> nat \<Rightarrow> 'a option" where
  "at xs k = (if k < length xs then Some (xs ! k) else None)"

text \<open>
  The state the two closures of \<open>createControls\<close> share: the array and the index. The
  variable \<open>current\<close> of the source always holds \<open>blocks[i]\<close>, so \<open>getInput\<close> reads it
  from the array.
\<close>

record UrlControls =
  ctl_blocks :: "jsstring list"
  ctl_i :: nat

definition createControls :: "jsstring list \<Rightarrow> nat \<Rightarrow> UrlControls" where
  "createControls blocks startPosition = \<lparr>ctl_blocks = blocks, ctl_i = startPosition\<rparr>"

definition getInput :: "UrlControls \<Rightarrow> jsstring option" where
  "getInput c = at (ctl_blocks c) (ctl_i c)"

definition advance :: "UrlControls \<Rightarrow> UrlControls" where
  "advance c = c\<lparr>ctl_i := ctl_i c + 1\<rparr>"

subsection \<open>\<open>generateValidator\<close>\<close>

definition baseValidator :: "RawRules \<Rightarrow> jsstring option \<Rightarrow> bool" where
  "baseValidator r input =
     (if required r \<and> falsy input then False
      else if falsy input then True
      else (case input of
              None \<Rightarrow> True
            | Some s \<Rightarrow>
                (case vtype r of
                   TUnion values \<Rightarrow> s \<in> set values
                 | TNumber \<Rightarrow> parseInt s \<noteq> VNaN
                 | TString \<Rightarrow> True)))"

text \<open>\<open>n < (maxLength ?? Infinity)\<close> and \<open>n > (maxLength ?? Infinity)\<close>.\<close>

definition below_max :: "nat \<Rightarrow> nat option \<Rightarrow> bool" where
  "below_max n m = (case m of None \<Rightarrow> True | Some k \<Rightarrow> n < k)"

definition above_max :: "nat \<Rightarrow> nat option \<Rightarrow> bool" where
  "above_max n m = (case m of None \<Rightarrow> False | Some k \<Rightarrow> k < n)"

definition min_or_0 :: "nat option \<Rightarrow> nat" where
  "min_or_0 m = (case m of None \<Rightarrow> 0 | Some k \<Rightarrow> k)"

text \<open>
  The \<open>while\<close> loop of the validator. The array \<open>result\<close> of the source only holds
  \<open>true\<close>s, so the loop carries its length. \<open>None\<close> is the \<open>return false\<close> inside the
  loop; \<open>Some n\<close> is the length of \<open>result\<close> when the loop ends.
\<close>

function validate_loop :: "RawRules \<Rightarrow> nat option \<Rightarrow> UrlControls \<Rightarrow> nat \<Rightarrow> nat option" where
  "validate_loop r maxLen c n =
     (if \<not> falsy (getInput c) \<and> below_max n maxLen then
        (if \<not> baseValidator r (getInput c) then None
         else validate_loop r maxLen (advance c) (Suc n))
      else Some n)"
  by pat_completeness auto
termination
  by (relation "measure (\<lambda>(r, maxLen, c, n). length (ctl_blocks c) - ctl_i c)")
     (auto simp: getInput_def at_def falsy_def advance_def split: if_splits)

declare validate_loop.simps [simp del]

definition generateValidator :: "RawRules \<Rightarrow> UrlControls \<Rightarrow> bool" where
  "generateValidator r c =
     (case array r of
        Some a \<Rightarrow>
          (case validate_loop r (maxLength a) c 0 of
             None \<Rightarrow> False
           | Some n \<Rightarrow>
               if above_max n (maxLength a) \<or> n < min_or_0 (minLength a) then False
               else True)
      | None \<Rightarrow>
          if required r \<and> falsy (getInput c) then False
          else if falsy (getInput c) then True
          else baseValidator r (getInput c))"

subsection \<open>\<open>generateParser\<close>\<close>

definition baseParser :: "RawRules \<Rightarrow> jsstring option \<Rightarrow> jsval" where
  "baseParser r input =
     (if required r \<and> falsy input then VNull
      else if falsy input then VUndefined
      else (case input of
              None \<Rightarrow> VUndefined
            | Some s \<Rightarrow> if vtype r = TNumber then parseInt s else VStr s))"

function parse_loop :: "RawRules \<Rightarrow> nat option \<Rightarrow> UrlControls \<Rightarrow> jsval list \<Rightarrow> jsval list" where
  "parse_loop r maxLen c result =
     (if \<not> falsy (getInput c) \<and> below_max (length result) maxLen then
        parse_loop r maxLen (advance c) (result @ [baseParser r (getInput c)])
      else result)"
  by pat_completeness auto
termination
  by (relation "measure (\<lambda>(r, maxLen, c, result). length (ctl_blocks c) - ctl_i c)")
     (auto simp: getInput_def at_def falsy_def advance_def split: if_splits)

declare parse_loop.simps [simp del]

definition generateParser :: "RawRules \<Rightarrow> UrlControls \<Rightarrow> jsval" where
  "generateParser r c =
     (case array r of
        Some a \<Rightarrow>
          (let result = parse_loop r (maxLength a) c [] in
           if above_max (length result) (maxLength a)
              \<or> length result < min_or_0 (minLength a)
           then VUndefined
           else VArr result)
      | None \<Rightarrow>
          if required r \<and> falsy (getInput c) then VNull
          else if falsy (getInput c) then VUndefined
          else baseParser r (getInput c))"

section \<open>\<open>encodeURI\<close> and \<open>decodeURI\<close>\<close>

text \<open>
  The two library functions the program calls on whole paths, after the language
  standard. \<open>encodeURI\<close> keeps the reserved and the unescaped characters and \<open>#\<close>, and
  writes every other code point as the percent-escaped octets of its UTF-8 form; a
  surrogate without its partner raises \<open>URIError\<close>. \<open>decodeURI\<close> reads the escapes
  back, leaves an escape of a reserved character or of \<open>#\<close> as it stands, and raises
  \<open>URIError\<close> on an escape that is cut short, is not hexadecimal or is not UTF-8.
\<close>

definition prepend :: "'a list \<Rightarrow> error + 'a list \<Rightarrow> error + 'a list" where
  "prepend xs r = (case r of Inl e \<Rightarrow> Inl e | Inr ys \<Rightarrow> Inr (xs @ ys))"

definition uriReserved :: "code_unit \<Rightarrow> bool" where
  "uriReserved c = (c \<in> set [0x3B, 0x2F, 0x3F, 0x3A, 0x40, 0x26, 0x3D, 0x2B, 0x24, 0x2C])"

definition uriUnescaped :: "code_unit \<Rightarrow> bool" where
  "uriUnescaped c =
     ((0x41 \<le> c \<and> c \<le> 0x5A) \<or> (0x61 \<le> c \<and> c \<le> 0x7A) \<or> (0x30 \<le> c \<and> c \<le> 0x39)
      \<or> c \<in> set [0x2D, 0x5F, 0x2E, 0x21, 0x7E, 0x2A, 0x27, 0x28, 0x29])"

definition encode_unescaped :: "code_unit \<Rightarrow> bool" where
  "encode_unescaped c = (uriReserved c \<or> uriUnescaped c \<or> c = 0x23)"

definition decode_preserved :: "code_unit \<Rightarrow> bool" where
  "decode_preserved c = (uriReserved c \<or> c = 0x23)"

definition is_lead :: "code_unit \<Rightarrow> bool" where
  "is_lead c = (0xD800 \<le> c \<and> c \<le> 0xDBFF)"

definition is_trail :: "code_unit \<Rightarrow> bool" where
  "is_trail c = (0xDC00 \<le> c \<and> c \<le> 0xDFFF)"

definition pair_code_point :: "code_unit \<Rightarrow> code_unit \<Rightarrow> nat" where
  "pair_code_point hi lo = (unat hi - 0xD800) * 0x400 + (unat lo - 0xDC00) + 0x10000"

definition UTF16EncodeCodePoint :: "nat \<Rightarrow> jsstring" where
  "UTF16EncodeCodePoint cp =
     (if cp \<le> 0xFFFF then [of_nat cp]
      else [of_nat ((cp - 0x10000) div 0x400 + 0xD800),
            of_nat ((cp - 0x10000) mod 0x400 + 0xDC00)])"

definition utf8_octets :: "nat \<Rightarrow> nat list" where
  "utf8_octets cp =
     (if cp < 0x80 then [cp]
      else if cp < 0x800 then [0xC0 + cp div 0x40, 0x80 + cp mod 0x40]
      else if cp < 0x10000 then
        [0xE0 + cp div 0x1000, 0x80 + cp div 0x40 mod 0x40, 0x80 + cp mod 0x40]
      else [0xF0 + cp div 0x40000, 0x80 + cp div 0x1000 mod 0x40,
            0x80 + cp div 0x40 mod 0x40, 0x80 + cp mod 0x40])"

definition hex_digit :: "nat \<Rightarrow> code_unit" where
  "hex_digit d = (if d < 10 then of_nat (0x30 + d) else of_nat (0x41 + (d - 10)))"

definition percent_octet :: "nat \<Rightarrow> jsstring" where
  "percent_octet b = [percent, hex_digit (b div 16), hex_digit (b mod 16)]"

definition percent_octets :: "nat list \<Rightarrow> jsstring" where
  "percent_octets bs = concat (map percent_octet bs)"

fun encodeURI :: "jsstring \<Rightarrow> error + jsstring" where
  "encodeURI [] = Inr []"
| "encodeURI (c # cs) =
     (if encode_unescaped c then prepend [c] (encodeURI cs)
      else if is_lead c then
        (case cs of
           [] \<Rightarrow> Inl URIError
         | d # rest \<Rightarrow>
             if is_trail d
             then prepend (percent_octets (utf8_octets (pair_code_point c d))) (encodeURI rest)
             else Inl URIError)
      else if is_trail c then Inl URIError
      else prepend (percent_octets (utf8_octets (unat c))) (encodeURI cs))"

definition hex_value :: "code_unit \<Rightarrow> nat option" where
  "hex_value c =
     (if 0x30 \<le> c \<and> c \<le> 0x39 then Some (unat c - 0x30)
      else if 0x41 \<le> c \<and> c \<le> 0x46 then Some (unat c - 0x41 + 10)
      else if 0x61 \<le> c \<and> c \<le> 0x66 then Some (unat c - 0x61 + 10)
      else None)"

text \<open>Two hexadecimal digits at the head of a string: the octet and what follows.\<close>

definition ParseHexOctet :: "jsstring \<Rightarrow> (nat \<times> jsstring) option" where
  "ParseHexOctet s =
     (case s of
        [] \<Rightarrow> None
      | h1 # t \<Rightarrow>
          (case t of
             [] \<Rightarrow> None
           | h2 # rest \<Rightarrow>
               (case hex_value h1 of
                  None \<Rightarrow> None
                | Some a \<Rightarrow>
                    (case hex_value h2 of
                       None \<Rightarrow> None
                     | Some b \<Rightarrow> Some (16 * a + b, rest)))))"

text \<open>The number of leading 1 bits of an octet.\<close>

definition leading_ones :: "nat \<Rightarrow> nat" where
  "leading_ones b =
     (if b < 0x80 then 0 else if b < 0xC0 then 1 else if b < 0xE0 then 2
      else if b < 0xF0 then 3 else if b < 0xF8 then 4 else 5)"

text \<open>The next \<open>j\<close> escapes of a multi-octet sequence.\<close>

fun continuation :: "nat \<Rightarrow> jsstring \<Rightarrow> (nat list \<times> jsstring) option" where
  "continuation 0 s = Some ([], s)"
| "continuation (Suc j) s =
     (case s of
        [] \<Rightarrow> None
      | p # t \<Rightarrow>
          if p \<noteq> percent then None
          else (case ParseHexOctet t of
                  None \<Rightarrow> None
                | Some (b, rest) \<Rightarrow>
                    (case continuation j rest of
                       None \<Rightarrow> None
                     | Some (octets, rest') \<Rightarrow> Some (b # octets, rest'))))"

definition is_continuation :: "nat \<Rightarrow> bool" where
  "is_continuation b = (0x80 \<le> b \<and> b \<le> 0xBF)"

text \<open>
  The code point of a sequence of two to four octets, when the sequence is well-formed
  UTF-8: continuation octets in range, no overlong form, no surrogate, at most
  \<open>U+10FFFF\<close>.
\<close>

fun utf8_code_point :: "nat list \<Rightarrow> nat option" where
  "utf8_code_point [b0, b1] =
     (let v = (b0 - 0xC0) * 0x40 + (b1 - 0x80)
      in if is_continuation b1 \<and> 0x80 \<le> v then Some v else None)"
| "utf8_code_point [b0, b1, b2] =
     (let v = (b0 - 0xE0) * 0x1000 + (b1 - 0x80) * 0x40 + (b2 - 0x80)
      in if is_continuation b1 \<and> is_continuation b2 \<and> 0x800 \<le> v
            \<and> (v < 0xD800 \<or> 0xDFFF < v)
         then Some v else None)"
| "utf8_code_point [b0, b1, b2, b3] =
     (let v = (b0 - 0xF0) * 0x40000 + (b1 - 0x80) * 0x1000 + (b2 - 0x80) * 0x40 + (b3 - 0x80)
      in if is_continuation b1 \<and> is_continuation b2 \<and> is_continuation b3
            \<and> 0x10000 \<le> v \<and> v \<le> 0x10FFFF
         then Some v else None)"
| "utf8_code_point octets = None"

lemma ParseHexOctet_length:
  "ParseHexOctet s = Some (b, rest) \<Longrightarrow> length s = length rest + 2"
  by (auto simp: ParseHexOctet_def split: list.splits option.splits)

lemma continuation_length:
  "continuation j s = Some (octets, rest) \<Longrightarrow> length rest \<le> length s"
proof (induction j arbitrary: s octets rest)
  case 0
  then show ?case by simp
next
  case (Suc j)
  then show ?case
    by (fastforce split: list.splits if_splits option.splits prod.splits
          dest: ParseHexOctet_length)
qed

function decodeURI :: "jsstring \<Rightarrow> error + jsstring" where
  "decodeURI [] = Inr []"
| "decodeURI (c # cs) =
     (if c \<noteq> percent then prepend [c] (decodeURI cs)
      else (case ParseHexOctet cs of
              None \<Rightarrow> Inl URIError
            | Some (b, rest) \<Rightarrow>
                if leading_ones b = 0 then
                  (if decode_preserved (of_nat b) then prepend (c # take 2 cs) (decodeURI rest)
                   else prepend [of_nat b] (decodeURI rest))
                else if leading_ones b = 1 \<or> 4 < leading_ones b then Inl URIError
                else (case continuation (leading_ones b - 1) rest of
                        None \<Rightarrow> Inl URIError
                      | Some (octets, rest') \<Rightarrow>
                          (case utf8_code_point (b # octets) of
                             None \<Rightarrow> Inl URIError
                           | Some v \<Rightarrow>
                               prepend (UTF16EncodeCodePoint v) (decodeURI rest')))))"
  by pat_completeness auto
termination
proof (relation "measure length", goal_cases)
  case 1
  then show ?case by simp
next
  case (2 c cs)
  then show ?case by simp
next
  case (3 c cs x2 b rest)
  then show ?case by (auto dest: ParseHexOctet_length)
next
  case (4 c cs x2 b rest)
  then show ?case by (auto dest: ParseHexOctet_length)
next
  case (5 c cs x2 b rest x2a octets rest')
  then show ?case by (auto dest!: ParseHexOctet_length continuation_length)
qed

section \<open>The matcher: \<open>parse\<close>\<close>

text \<open>
  The parameters of a parsed path: an object with one property for each parameter block
  passed, or \<open>null\<close> (\<open>None\<close>) when no parameter block was passed. A property holding
  \<open>undefined\<close> is a key bound to \<open>VUndefined\<close>. Every name is taken as an ordinary own
  property.
\<close>

type_synonym params = "jsstring \<rightharpoonup> jsval"

record parsed =
  path :: jsstring
  params :: "params option"

definition assign :: "params option \<Rightarrow> jsstring \<Rightarrow> jsval \<Rightarrow> params option" where
  "assign ps n v = Some ((case ps of None \<Rightarrow> Map.empty | Some m \<Rightarrow> m)(n \<mapsto> v))"

text \<open>The \<open>for\<close> loop of \<open>parse\<close>: \<open>None\<close> is \<open>return null\<close>.\<close>

fun parse_blocks ::
  "block list \<Rightarrow> jsstring list \<Rightarrow> nat \<Rightarrow> params option \<Rightarrow> params option option" where
  "parse_blocks [] raw i ps = Some ps"
| "parse_blocks (Part v # rest) raw i ps =
     (if at raw i \<noteq> Some v then None else parse_blocks rest raw (Suc i) ps)"
| "parse_blocks (Parameter n r # rest) raw i ps =
     (if \<not> generateValidator r (createControls raw i) then None
      else (let parsedPayload = generateParser r (createControls raw i)
            in if parsedPayload = VNull then None
               else parse_blocks rest raw (Suc i) (assign ps n parsedPayload)))"

lemma parse_blocks_Parameter [simp]:
  "parse_blocks (Parameter n r # rest) raw i ps =
     (if \<not> generateValidator r (createControls raw i) then None
      else if generateParser r (createControls raw i) = VNull then None
      else parse_blocks rest raw (Suc i)
             (assign ps n (generateParser r (createControls raw i))))"
  by (simp add: Let_def)

declare parse_blocks.simps(3) [simp del]

definition parse :: "block list \<Rightarrow> jsstring \<Rightarrow> error + parsed option" where
  "parse blocks input =
     (case decodeURI input of
        Inl e \<Rightarrow> Inl e
      | Inr decoded \<Rightarrow>
          (case parse_blocks blocks (segments decoded) 0 None of
             None \<Rightarrow> Inr None
           | Some ps \<Rightarrow> Inr (Some \<lparr>path = input, params = ps\<rparr>)))"

section \<open>The builder: \<open>build\<close>\<close>

text \<open>
  Decimal digits of a natural number, and \<open>toString\<close> of the values that reach it: a
  truthy boolean, number or string. (The source writes a number from \<open>1e21\<close> on in
  exponent notation; the digits are kept here.)
\<close>

fun digits_of :: "nat \<Rightarrow> jsstring" where
  "digits_of n =
     (if n < 10 then [of_nat (0x30 + n)]
      else digits_of (n div 10) @ [of_nat (0x30 + n mod 10)])"

declare digits_of.simps [simp del]

fun toString :: "jsval \<Rightarrow> jsstring" where
  "toString (VBool b) = (if b then ustr ''true'' else ustr ''false'')"
| "toString (VNum n) = (if n < 0 then 0x2D # digits_of (nat (- n)) else digits_of (nat n))"
| "toString VNaN = ustr ''NaN''"
| "toString (VStr s) = s"
| "toString v = []"

text \<open>The results of a list of calls, or the first error among them.\<close>

fun collect :: "(error + 'a) list \<Rightarrow> error + 'a list" where
  "collect [] = Inr []"
| "collect (x # xs) =
     (case x of
        Inl e \<Rightarrow> Inl e
      | Inr v \<Rightarrow> (case collect xs of Inl e \<Rightarrow> Inl e | Inr vs \<Rightarrow> Inr (v # vs)))"

text \<open>\<open>typeof null\<close> is \<open>'object'\<close>, so \<open>null\<close> raises as an object does.\<close>

fun stringifyParam :: "jsval \<Rightarrow> error + jsstring" where
  "stringifyParam (VArr items) =
     (if items = [] then Inr []
      else (case collect (map stringifyParam items) of
              Inl e \<Rightarrow> Inl e
            | Inr strs \<Rightarrow> Inr (join slash strs)))"
| "stringifyParam VObj = Inl ObjectParameter"
| "stringifyParam VNull = Inl ObjectParameter"
| "stringifyParam v = (if \<not> truthy v then Inr [] else Inr (toString v))"

text \<open>
  \<open>anyParams[name]\<close>: a \<open>TypeError\<close> when \<open>build\<close> was called with no record
  (\<open>None\<close>), \<open>undefined\<close> when the record has no such property. The record is
  read by its own properties; what a name would inherit from the prototype of an object
  is not modelled.
\<close>

definition property :: "params option \<Rightarrow> jsstring \<Rightarrow> error + jsval" where
  "property ps n =
     (case ps of
        None \<Rightarrow> Inl TypeError
      | Some m \<Rightarrow> Inr (case m n of None \<Rightarrow> VUndefined | Some v \<Rightarrow> v))"

text \<open>The \<open>for\<close> loop of \<open>build\<close>: the array \<open>result\<close>, or the first error raised.\<close>

fun build_blocks :: "block list \<Rightarrow> params option \<Rightarrow> error + jsstring list" where
  "build_blocks [] ps = Inr []"
| "build_blocks (Part v # rest) ps =
     (case build_blocks rest ps of
        Inl e \<Rightarrow> Inl e
      | Inr result \<Rightarrow> Inr (v # result))"
| "build_blocks (Parameter n r # rest) ps =
     (case property ps n of
        Inl e \<Rightarrow> Inl e
      | Inr v \<Rightarrow>
          if \<not> truthy v \<and> required r then Inl (MissingRequired n)
          else if \<not> truthy v \<and> \<not> required r then build_blocks rest ps
          else (case stringifyParam v of
                  Inl e \<Rightarrow> Inl e
                | Inr s \<Rightarrow>
                    (case build_blocks rest ps of
                       Inl e \<Rightarrow> Inl e
                     | Inr result \<Rightarrow> Inr (s # result))))"

definition build :: "block list \<Rightarrow> params option \<Rightarrow> error + jsstring" where
  "build blocks ps =
     (case build_blocks blocks ps of
        Inl e \<Rightarrow> Inl e
      | Inr result \<Rightarrow> encodeURI (slash # join slash (filter_Boolean result)))"

section \<open>The compiled pair\<close>

text \<open>
  \<open>compile(template)\<close> returns the two closures over the blocks;
  \<open>compile(template).parse(input)\<close> and \<open>compile(template).build(params)\<close> are:
\<close>

definition compile_parse :: "jsstring \<Rightarrow> jsstring \<Rightarrow> error + parsed option" where
  "compile_parse template input =
     (case compile template of Inl e \<Rightarrow> Inl e | Inr blocks \<Rightarrow> parse blocks input)"

definition compile_build :: "jsstring \<Rightarrow> params option \<Rightarrow> error + jsstring" where
  "compile_build template ps =
     (case compile template of Inl e \<Rightarrow> Inl e | Inr blocks \<Rightarrow> build blocks ps)"

text \<open>A block that takes a run of segments: a parameter with \<open>*\<close> or \<open>+\<close>.\<close>

fun is_array_block :: "block \<Rightarrow> bool" where
  "is_array_block (Parameter n r) = (array r \<noteq> None)"
| "is_array_block (Part v) = False"

fun is_parameter :: "block \<Rightarrow> bool" where
  "is_parameter (Parameter n r) = True"
| "is_parameter (Part v) = False"

text \<open>A string with no surrogate that lacks its partner (\<open>isWellFormed\<close> of the language).\<close>

fun isWellFormed :: "jsstring \<Rightarrow> bool" where
  "isWellFormed [] = True"
| "isWellFormed (c # cs) =
     (if is_lead c then
        (case cs of [] \<Rightarrow> False | d # rest \<Rightarrow> is_trail d \<and> isWellFormed rest)
      else if is_trail c then False
      else isWellFormed cs)"

section \<open>Evaluation on concrete inputs\<close>

lemmas compile_eval =
  compile_def segments_def filter_Boolean_def ustr_def match_here_def is_word_def
  match_generic_def is_generic_char_def match_modificator_def is_modificator_def
  make_rules_def generic_type_def falsy_def apply_modificator_def

lemmas parse_eval =
  parse_def segments_def filter_Boolean_def ustr_def falsy_def
  generateValidator_def generateParser_def validate_loop.simps parse_loop.simps
  baseValidator_def baseParser_def createControls_def getInput_def advance_def at_def
  below_max_def above_max_def min_or_0_def assign_def
  parseInt_def is_whitespace_def digit_value_def is_digit_def digits_value_def
  ParseHexOctet_def hex_value_def leading_ones_def decode_preserved_def uriReserved_def
  prepend_def is_continuation_def UTF16EncodeCodePoint_def

lemmas build_eval =
  build_def property_def filter_Boolean_def ustr_def digits_of.simps
  encode_unescaped_def uriReserved_def uriUnescaped_def is_lead_def is_trail_def
  prepend_def percent_octets_def percent_octet_def utf8_octets_def hex_digit_def
  pair_code_point_def

section \<open>\<open>decodeURI\<close> undoes \<open>encodeURI\<close>\<close>

lemma unat_digit_0_9: "d < 16 \<Longrightarrow> unat (48 + word_of_nat d :: 16 word) = 48 + d"
  using unat_of_nat[of "48 + d", where 'a=16] by simp

lemma unat_digit_A_F: "d < 16 \<Longrightarrow> unat (55 + word_of_nat d :: 16 word) = 55 + d"
  using unat_of_nat[of "55 + d", where 'a=16] by simp

lemma hex_value_hex_digit: "d < 16 \<Longrightarrow> hex_value (hex_digit d) = Some d"
  by (auto simp: hex_value_def hex_digit_def word_le_nat_alt unat_digit_0_9 unat_digit_A_F)

lemma ParseHexOctet_percent:
  "b < 256 \<Longrightarrow> ParseHexOctet (hex_digit (b div 16) # hex_digit (b mod 16) # rest) = Some (b, rest)"
  by (simp add: ParseHexOctet_def hex_value_hex_digit less_mult_imp_div_less)

lemma continuation_percent_octets:
  "length bs = j \<Longrightarrow> \<forall>b\<in>set bs. b < 256 \<Longrightarrow>
   continuation j (percent_octets bs @ rest) = Some (bs, rest)"
  by (induction bs arbitrary: j)
     (auto simp: percent_octets_def percent_octet_def ParseHexOctet_percent)

lemma mod_0x1000_split: "(cp::nat) div 0x40 mod 0x40 * 0x40 + cp mod 0x40 = cp mod 0x1000"
  using mod_mult2_eq[of cp "0x40" "0x40"] by simp
lemma mod_0x40000_split: "(cp::nat) div 0x1000 mod 0x40 * 0x1000 + cp mod 0x1000 = cp mod 0x40000"
  using mod_mult2_eq[of cp "0x1000" "0x40"] by simp


lemma three_octets_value: "cp div 0x1000 * 0x1000 + cp div 0x40 mod 0x40 * 0x40 + cp mod 0x40 = (cp::nat)"
  by (simp add: add.assoc mod_0x1000_split)
lemma four_octets_value: "cp div 0x40000 * 0x40000 + cp div 0x1000 mod 0x40 * 0x1000 + cp div 0x40 mod 0x40 * 0x40 + cp mod 0x40 = (cp::nat)"
  by (simp add: add.assoc mod_0x1000_split mod_0x40000_split)

lemma utf8_code_point_2:
  assumes "0x80 \<le> cp" "cp < 0x800"
  shows "utf8_code_point [0xC0 + cp div 0x40, 0x80 + cp mod 0x40] = Some cp"
  using assms by (simp add: is_continuation_def)

lemma utf8_code_point_3:
  assumes "0x800 \<le> cp" "cp < 0xD800 \<or> 0xDFFF < cp"
  shows "utf8_code_point [0xE0 + cp div 0x1000, 0x80 + cp div 0x40 mod 0x40, 0x80 + cp mod 0x40] = Some cp"
proof -
  have "cp div 0x40 mod 0x40 \<le> 0x3F" "cp mod 0x40 \<le> 0x3F" by simp_all
  then show ?thesis using assms by (simp add: is_continuation_def three_octets_value Let_def)
qed

lemma utf8_code_point_4:
  assumes "0x10000 \<le> cp" "cp \<le> 0x10FFFF"
  shows "utf8_code_point [0xF0 + cp div 0x40000, 0x80 + cp div 0x1000 mod 0x40,
            0x80 + cp div 0x40 mod 0x40, 0x80 + cp mod 0x40] = Some cp"
proof -
  have "cp div 0x1000 mod 0x40 \<le> 0x3F" "cp div 0x40 mod 0x40 \<le> 0x3F" "cp mod 0x40 \<le> 0x3F" by simp_all
  then show ?thesis using assms by (simp add: is_continuation_def four_octets_value Let_def)
qed

lemma leading_ones_2: "cp < 0x800 \<Longrightarrow> leading_ones (0xC0 + cp div 0x40) = 2"
  by (simp add: leading_ones_def)
lemma leading_ones_3: "cp < 0x10000 \<Longrightarrow> leading_ones (0xE0 + cp div 0x1000) = 3"
  by (simp add: leading_ones_def)
lemma leading_ones_4: "cp \<le> 0x10FFFF \<Longrightarrow> leading_ones (0xF0 + cp div 0x40000) = 4"
  by (simp add: leading_ones_def)

lemma utf16_bmp: "UTF16EncodeCodePoint (unat (c::code_unit)) = [c]"
proof -
  have "unat c < 65536" using unsigned_less[of c] by simp
  then show ?thesis by (simp add: UTF16EncodeCodePoint_def)
qed

lemma surrogate_offsets:
  assumes "is_lead hi" "is_trail lo"
  obtains h l where "unat hi = 0xD800 + h" "h < 0x400" "unat lo = 0xDC00 + l" "l < 0x400"
proof -
  have "0xD800 \<le> unat hi" "unat hi \<le> 0xDBFF" "0xDC00 \<le> unat lo" "unat lo \<le> 0xDFFF"
    using assms by (simp_all add: is_lead_def is_trail_def word_le_nat_alt)
  then have "unat hi = 0xD800 + (unat hi - 0xD800)" "unat hi - 0xD800 < 0x400"
    "unat lo = 0xDC00 + (unat lo - 0xDC00)" "unat lo - 0xDC00 < 0x400"
    by linarith+
  then show thesis using that by blast
qed

lemma pair_bounds:
  assumes "is_lead hi" "is_trail lo"
  shows "0x10000 \<le> pair_code_point hi lo" "pair_code_point hi lo \<le> 0x10FFFF"
proof -
  obtain h l where *: "unat hi = 0xD800 + h" "h < 0x400" "unat lo = 0xDC00 + l" "l < 0x400"
    using assms by (rule surrogate_offsets)
  show "0x10000 \<le> pair_code_point hi lo" by (simp add: pair_code_point_def)
  show "pair_code_point hi lo \<le> 0x10FFFF" using * by (simp add: pair_code_point_def)
qed

lemma utf16_pair:
  assumes "is_lead hi" "is_trail lo"
  shows "UTF16EncodeCodePoint (pair_code_point hi lo) = [hi, lo]"
proof -
  obtain h l where *: "unat hi = 0xD800 + h" "h < 0x400" "unat lo = 0xDC00 + l" "l < 0x400"
    using assms by (rule surrogate_offsets)
  have a: "(pair_code_point hi lo - 0x10000) div 0x400 + 0xD800 = unat hi"
    using * by (simp add: pair_code_point_def)
  have b: "(pair_code_point hi lo - 0x10000) mod 0x400 + 0xDC00 = unat lo"
    using * by (simp add: pair_code_point_def)
  have "\<not> pair_code_point hi lo \<le> 0xFFFF" using pair_bounds(1)[OF assms] by simp
  then show ?thesis by (simp add: UTF16EncodeCodePoint_def a b)
qed


lemma encode_unescaped_not_percent: "encode_unescaped c \<Longrightarrow> c \<noteq> percent"
  by (auto simp: encode_unescaped_def uriReserved_def uriUnescaped_def)

lemma decode_percent_octets_ascii:
  assumes "\<not> encode_unescaped c" "unat c < 0x80"
  shows "decodeURI (percent_octets (utf8_octets (unat c)) @ e) = prepend [c] (decodeURI e)"
proof -
  have "\<not> decode_preserved c" using assms(1) by (simp add: encode_unescaped_def decode_preserved_def)
  then show ?thesis using assms(2)
    by (simp add: utf8_octets_def percent_octets_def percent_octet_def ParseHexOctet_percent leading_ones_def)
qed

lemma mod64_lt: "(n::nat) mod 0x40 < 0x80"
  by (rule order_less_trans[of _ 64]) simp_all

lemma decode_percent_octets_2:
  assumes "0x80 \<le> cp" "cp < 0x800"
  shows "decodeURI (percent_octets (utf8_octets cp) @ e) = prepend (UTF16EncodeCodePoint cp) (decodeURI e)"
proof -
  have b: "0xC0 + cp div 0x40 < 256" "0x80 + cp mod 0x40 < 256" using assms by simp_all
  have c: "continuation 1 (percent_octets [0x80 + cp mod 0x40] @ e) = Some ([0x80 + cp mod 0x40], e)"
    by (rule continuation_percent_octets) (simp_all add: mod64_lt)
  show ?thesis using assms b c
    by (simp add: utf8_octets_def percent_octets_def percent_octet_def ParseHexOctet_percent
        leading_ones_2 utf8_code_point_2 del: utf8_code_point.simps continuation.simps)
qed


lemma decode_percent_octets_3:
  assumes "0x800 \<le> cp" "cp < 0x10000" "cp < 0xD800 \<or> 0xDFFF < cp"
  shows "decodeURI (percent_octets (utf8_octets cp) @ e) = prepend (UTF16EncodeCodePoint cp) (decodeURI e)"
proof -
  let ?t = "[0x80 + cp div 0x40 mod 0x40, 0x80 + cp mod 0x40]"
  have b: "0xE0 + cp div 0x1000 < 256" using assms by simp
  have c: "continuation 2 (percent_octets ?t @ e) = Some (?t, e)"
    by (rule continuation_percent_octets) (simp_all add: mod64_lt)
  have u: "utf8_octets cp = (0xE0 + cp div 0x1000) # ?t" using assms by (simp add: utf8_octets_def)
  have p: "percent_octets ((0xE0 + cp div 0x1000) # ?t) @ e
            = percent # hex_digit ((0xE0 + cp div 0x1000) div 16) # hex_digit ((0xE0 + cp div 0x1000) mod 16)
                # (percent_octets ?t @ e)"
    by (simp add: percent_octets_def percent_octet_def)
  show ?thesis unfolding u p using assms b c
    by (simp add: ParseHexOctet_percent leading_ones_3 utf8_code_point_3
        del: utf8_code_point.simps continuation.simps)
qed

lemma decode_percent_octets_4:
  assumes "0x10000 \<le> cp" "cp \<le> 0x10FFFF"
  shows "decodeURI (percent_octets (utf8_octets cp) @ e) = prepend (UTF16EncodeCodePoint cp) (decodeURI e)"
proof -
  let ?t = "[0x80 + cp div 0x1000 mod 0x40, 0x80 + cp div 0x40 mod 0x40, 0x80 + cp mod 0x40]"
  have b: "0xF0 + cp div 0x40000 < 256" using assms by simp
  have c: "continuation 3 (percent_octets ?t @ e) = Some (?t, e)"
    by (rule continuation_percent_octets) (simp_all add: mod64_lt)
  have u: "utf8_octets cp = (0xF0 + cp div 0x40000) # ?t" using assms by (simp add: utf8_octets_def)
  have p: "percent_octets ((0xF0 + cp div 0x40000) # ?t) @ e
            = percent # hex_digit ((0xF0 + cp div 0x40000) div 16) # hex_digit ((0xF0 + cp div 0x40000) mod 16)
                # (percent_octets ?t @ e)"
    by (simp add: percent_octets_def percent_octet_def)
  show ?thesis unfolding u p using assms b c
    by (simp add: ParseHexOctet_percent leading_ones_4 utf8_code_point_4
        del: utf8_code_point.simps continuation.simps)
qed

lemma decode_percent_octets_bmp:
  assumes "\<not> encode_unescaped c" "\<not> is_lead c" "\<not> is_trail c"
  shows "decodeURI (percent_octets (utf8_octets (unat c)) @ e) = prepend [c] (decodeURI e)"
proof -
  have lt: "unat c < 0x10000" using unsigned_less[of c] by simp
  have ns: "unat c < 0xD800 \<or> 0xDFFF < unat c"
    using assms(2,3) by (auto simp: is_lead_def is_trail_def word_le_nat_alt)
  consider "unat c < 0x80" | "0x80 \<le> unat c" "unat c < 0x800" | "0x800 \<le> unat c" by linarith
  then show ?thesis
  proof cases
    case 1
    then show ?thesis using assms(1) by (rule decode_percent_octets_ascii[rotated])
  next
    case 2
    then show ?thesis using decode_percent_octets_2[of "unat c" e] by (simp add: utf16_bmp)
  next
    case 3
    then show ?thesis using decode_percent_octets_3[of "unat c" e] lt ns by (simp add: utf16_bmp)
  qed
qed

lemma prepend_prepend: "prepend xs (prepend ys r) = prepend (xs @ ys) r"
  by (cases r) (simp_all add: prepend_def)

lemma decodeURI_encodeURI: "encodeURI s = Inr e \<Longrightarrow> decodeURI e = Inr s"
proof (induction s arbitrary: e rule: encodeURI.induct)
  case 1
  then show ?case by simp
next
  case (2 c cs)
  show ?case
  proof (cases "encode_unescaped c")
    case True
    with "2.prems" obtain e' where e': "encodeURI cs = Inr e'" "e = c # e'"
      by (auto simp: prepend_def split: sum.splits)
    with True "2.IH"(1) show ?thesis
      by (simp add: encode_unescaped_not_percent prepend_def)
  next
    case False
    show ?thesis
    proof (cases "is_lead c")
      case lead: True
      with False "2.prems" obtain d rest e' where
        d: "cs = d # rest" "is_trail d" "encodeURI rest = Inr e'"
           "e = percent_octets (utf8_octets (pair_code_point c d)) @ e'"
        by (auto simp: prepend_def split: sum.splits list.splits if_splits)
      have "decodeURI e' = Inr rest" using "2.IH"(2) False lead d by simp
      then show ?thesis
        using d decode_percent_octets_4[OF pair_bounds[OF lead d(2)], of e'] utf16_pair[OF lead d(2)]
        by (simp add: prepend_def)
    next
      case nolead: False
      with False "2.prems" obtain e' where
        d: "\<not> is_trail c" "encodeURI cs = Inr e'" "e = percent_octets (utf8_octets (unat c)) @ e'"
        by (auto simp: prepend_def split: sum.splits if_splits)
      have "decodeURI e' = Inr cs" using "2.IH"(3) False nolead d by simp
      then show ?thesis
        using d decode_percent_octets_bmp[OF False nolead d(1), of e'] by (simp add: prepend_def)
    qed
  qed
qed

section \<open>Splitting, joining and well-formed strings\<close>

lemma js_split_not_Nil: "js_split sep s \<noteq> []"
  by (induction s) (auto split: list.splits)

lemma js_split_no_sep: "sep \<notin> set a \<Longrightarrow> js_split sep a = [a]"
  by (induction a) auto

lemma js_split_append: "js_split sep (a @ sep # b) = js_split sep a @ js_split sep b"
proof (induction a)
  case Nil
  then show ?case by simp
next
  case (Cons c cs)
  obtain w ws where "js_split sep cs = w # ws"
    using js_split_not_Nil[of sep cs] by (cases "js_split sep cs") auto
  with Cons show ?case by simp
qed

lemma js_split_pieces: "w \<in> set (js_split sep s) \<Longrightarrow> sep \<notin> set w"
proof (induction s arbitrary: w)
  case Nil
  then show ?case by simp
next
  case (Cons c cs)
  then show ?case
    by (cases "js_split sep cs") (auto split: if_splits)
qed

lemma segments_append: "segments (a @ slash # b) = segments a @ segments b"
  by (simp add: segments_def filter_Boolean_def js_split_append)

lemma segments_pieces: "w \<in> set (segments s) \<Longrightarrow> w \<noteq> [] \<and> slash \<notin> set w"
  by (auto simp: segments_def filter_Boolean_def dest: js_split_pieces)

lemma js_split_join:
  "ws \<noteq> [] \<Longrightarrow> \<forall>w\<in>set ws. sep \<notin> set w \<Longrightarrow> js_split sep (join sep ws) = ws"
proof (induction sep ws rule: join.induct)
  case (1 sep)
  then show ?case by simp
next
  case (2 sep w)
  then show ?case by (simp add: js_split_no_sep)
next
  case (3 sep w v ws)
  then show ?case by (simp add: js_split_append js_split_no_sep)
qed

lemma segments_slash_join:
  assumes "\<forall>w\<in>set ws. w \<noteq> [] \<and> slash \<notin> set w"
  shows "segments (slash # join slash ws) = ws"
proof (cases ws)
  case Nil
  then show ?thesis by (simp add: segments_def filter_Boolean_def)
next
  case (Cons v vs)
  then have "js_split slash (join slash ws) = ws" using assms by (intro js_split_join) auto
  moreover have "filter (\<lambda>w. w \<noteq> []) ws = ws" using assms by (simp add: filter_id_conv)
  ultimately show ?thesis by (simp add: segments_def filter_Boolean_def)
qed

lemma filter_Boolean_segments: "filter_Boolean (segments s) = segments s"
  by (simp add: segments_def filter_Boolean_def)

lemma not_surrogate_slash: "\<not> is_lead slash" "\<not> is_trail slash"
  by (simp_all add: is_lead_def is_trail_def)

lemma isWellFormed_append: "isWellFormed a \<Longrightarrow> isWellFormed b \<Longrightarrow> isWellFormed (a @ b)"
  by (induction a rule: isWellFormed.induct) (auto split: list.splits if_splits)

lemma isWellFormed_split:
  "isWellFormed (a @ slash # b) \<Longrightarrow> isWellFormed a \<and> isWellFormed b"
  by (induction a rule: isWellFormed.induct)
     (auto simp: not_surrogate_slash split: list.splits if_splits)

lemma isWellFormed_pieces:
  "isWellFormed s \<Longrightarrow> w \<in> set (js_split slash s) \<Longrightarrow> isWellFormed w"
proof (induction "length s" arbitrary: s rule: less_induct)
  case less
  show ?case
  proof (cases "slash \<in> set s")
    case False
    then have "js_split slash s = [s]" by (rule js_split_no_sep)
    then show ?thesis using less.prems by simp
  next
    case True
    then obtain a b where s: "s = a @ slash # b" and a: "slash \<notin> set a"
      using split_list_first[of slash s] by blast
    have wf: "isWellFormed a \<and> isWellFormed b"
      using less.prems(1) unfolding s by (rule isWellFormed_split)
    have "js_split slash s = a # js_split slash b"
      unfolding s by (simp only: js_split_append js_split_no_sep[OF a] append.simps)
    then have "w = a \<or> w \<in> set (js_split slash b)"
      using less.prems(2) by simp
    moreover have "length b < length s" unfolding s by simp
    ultimately show ?thesis using wf less.hyps[of b] by blast
  qed
qed

lemma isWellFormed_join:
  "\<forall>w\<in>set ws. isWellFormed w \<Longrightarrow> isWellFormed (join slash ws)"
proof (induction slash ws rule: join.induct)
  case 1
  then show ?case by simp
next
  case (2 w)
  then show ?case by simp
next
  case (3 w v ws)
  then have "isWellFormed (slash # join slash (v # ws))" by (simp add: not_surrogate_slash)
  with 3 show ?case by (simp add: isWellFormed_append)
qed

lemma isWellFormed_slash_join_segments:
  "isWellFormed s \<Longrightarrow> isWellFormed (slash # join slash (segments s))"
  by (auto simp: not_surrogate_slash segments_def filter_Boolean_def
      intro!: isWellFormed_join dest: isWellFormed_pieces)

lemma encode_unescaped_not_surrogate:
  "encode_unescaped c \<Longrightarrow> \<not> is_lead c \<and> \<not> is_trail c"
  by (auto simp: encode_unescaped_def uriReserved_def uriUnescaped_def is_lead_def is_trail_def
      word_le_nat_alt)

lemma encodeURI_isWellFormed: "isWellFormed s \<Longrightarrow> \<exists>e. encodeURI s = Inr e"
proof (induction s rule: isWellFormed.induct)
  case 1
  show ?case by simp
next
  case (2 c cs)
  show ?case
  proof (cases "is_lead c")
    case True
    then obtain d rest where cs: "cs = d # rest" "is_trail d" "isWellFormed rest"
      using "2.prems" by (cases cs) auto
    then obtain e where "encodeURI rest = Inr e" using "2.IH"(1) True by blast
    moreover have "\<not> encode_unescaped c" using True encode_unescaped_not_surrogate by blast
    ultimately show ?thesis using True cs by (simp add: prepend_def)
  next
    case False
    then have nt: "\<not> is_trail c" and wf: "isWellFormed cs"
      using "2.prems" by (auto split: if_splits)
    then obtain e where "encodeURI cs = Inr e" using "2.IH"(2) False by blast
    then show ?thesis using False nt by (simp add: prepend_def)
  qed
qed

lemma encodeURI_decodeURI_wf:
  "isWellFormed s \<Longrightarrow> \<exists>e. encodeURI s = Inr e \<and> decodeURI e = Inr s"
  using encodeURI_isWellFormed decodeURI_encodeURI by blast

section \<open>Decoding a path with more text appended\<close>

lemma ParseHexOctet_append:
  "ParseHexOctet s = Some (b, rest) \<Longrightarrow> ParseHexOctet (s @ t) = Some (b, rest @ t)"
  by (auto simp: ParseHexOctet_def split: list.splits option.splits)

lemma continuation_append:
  "continuation j s = Some (octets, rest) \<Longrightarrow> continuation j (s @ t) = Some (octets, rest @ t)"
proof (induction j arbitrary: s octets rest)
  case 0
  then show ?case by simp
next
  case (Suc j)
  from Suc.prems obtain u b r os where
    s: "s = percent # u" and p: "ParseHexOctet u = Some (b, r)"
    and c: "continuation j r = Some (os, rest)" and o: "octets = b # os"
    by (auto split: list.splits if_splits option.splits prod.splits)
  show ?case using s o ParseHexOctet_append[OF p, of t] Suc.IH[OF c] by simp
qed

lemma prepend_Inr: "prepend xs r = Inr ys \<Longrightarrow> \<exists>zs. r = Inr zs \<and> ys = xs @ zs"
  by (cases r) (simp_all add: prepend_def)

lemma decodeURI_append:
  "decodeURI a = Inr a' \<Longrightarrow> decodeURI (a @ b) = prepend a' (decodeURI b)"
proof (induction a arbitrary: a' rule: decodeURI.induct)
  case 1
  then show ?case by (cases "decodeURI b") (simp_all add: prepend_def)
next
  case (2 c cs)
  show ?case
  proof (cases "c = percent")
    case False
    then obtain r where r: "decodeURI cs = Inr r" "a' = c # r"
      using "2.prems" by (auto dest: prepend_Inr)
    then show ?thesis using False "2.IH"(1)[of r] by (simp add: prepend_prepend)
  next
    case True
    then obtain b0 rest where p: "ParseHexOctet cs = Some (b0, rest)"
      using "2.prems" by (auto split: option.splits)
    note pa = ParseHexOctet_append[OF p, of b]
    have unat_digit_A_F: "2 - length cs = 0" using ParseHexOctet_length[OF p] by simp
    consider (ascii_kept) "leading_ones b0 = 0" "decode_preserved (of_nat b0)"
      | (ascii) "leading_ones b0 = 0" "\<not> decode_preserved (of_nat b0)"
      | (multi) "leading_ones b0 \<noteq> 0" by blast
    then show ?thesis
    proof cases
      case ascii_kept
      then obtain r where r: "decodeURI rest = Inr r" "a' = c # take 2 cs @ r"
        using "2.prems" True p by (auto dest: prepend_Inr)
      have "decodeURI (rest @ b) = prepend r (decodeURI b)"
        using "2.IH"(2) True p ascii_kept r(1) by simp
      then show ?thesis
        using True p pa unat_digit_A_F ascii_kept r by (simp add: prepend_prepend)
    next
      case ascii
      then obtain r where r: "decodeURI rest = Inr r" "a' = of_nat b0 # r"
        using "2.prems" True p by (auto dest: prepend_Inr)
      have "decodeURI (rest @ b) = prepend r (decodeURI b)"
        using "2.IH"(3) True p ascii r(1) by simp
      then show ?thesis
        using True p pa ascii r by (simp add: prepend_prepend)
    next
      case multi
      then have n: "\<not> (leading_ones b0 = 1 \<or> 4 < leading_ones b0)"
        using "2.prems" True p by (auto split: if_splits)
      then obtain octets rest' where c: "continuation (leading_ones b0 - 1) rest = Some (octets, rest')"
        using "2.prems" True p multi by (auto split: option.splits)
      then obtain v where v: "utf8_code_point (b0 # octets) = Some v"
        using "2.prems" True p multi n by (auto split: option.splits)
      then obtain r where r: "decodeURI rest' = Inr r" "a' = UTF16EncodeCodePoint v @ r"
        using "2.prems" True p multi n c by (auto dest: prepend_Inr)
      have "decodeURI (rest' @ b) = prepend r (decodeURI b)"
        using "2.IH"(4) True p multi n c v r(1) by simp
      then show ?thesis
        using True pa multi n continuation_append[OF c, of b] v r
        by (simp add: prepend_prepend del: utf8_code_point.simps)
    qed
  qed
qed

section \<open>What the matcher reads\<close>

lemma at_append_left: "i < length raw \<Longrightarrow> at (raw @ extra) i = at raw i"
  by (simp add: at_def nth_append)

lemma single_validator_at:
  "array r = None \<Longrightarrow>
   generateValidator r (createControls raw i)
     = (if required r \<and> falsy (at raw i) then False
        else if falsy (at raw i) then True
        else baseValidator r (at raw i))"
  by (simp add: generateValidator_def getInput_def createControls_def)

lemma single_parser_at:
  "array r = None \<Longrightarrow>
   generateParser r (createControls raw i)
     = (if required r \<and> falsy (at raw i) then VNull
        else if falsy (at raw i) then VUndefined
        else baseParser r (at raw i))"
  by (simp add: generateParser_def getInput_def createControls_def)

lemma parse_blocks_extra:
  "\<forall>b\<in>set blocks. \<not> is_array_block b \<Longrightarrow> i + length blocks \<le> length raw \<Longrightarrow>
   parse_blocks blocks (raw @ extra) i ps = parse_blocks blocks raw i ps"
proof (induction blocks arbitrary: i ps)
  case Nil
  then show ?case by simp
next
  case (Cons b blocks)
  have i: "i < length raw" using Cons.prems(2) by simp
  have rest: "\<And>ps'. parse_blocks blocks (raw @ extra) (Suc i) ps' = parse_blocks blocks raw (Suc i) ps'"
    using Cons.IH[of "Suc i"] Cons.prems by simp
  show ?case
  proof (cases b)
    case (Parameter n r)
    then have "array r = None" using Cons.prems(1) by simp
    then show ?thesis
      using Parameter rest i by (simp add: single_validator_at single_parser_at at_append_left)
  next
    case (Part v)
    then show ?thesis using rest i by (simp add: at_append_left)
  qed
qed

lemma parse_blocks_append:
  "parse_blocks (xs @ ys) raw i ps
     = (case parse_blocks xs raw i ps of
          None \<Rightarrow> None
        | Some ps' \<Rightarrow> parse_blocks ys raw (length xs + i) ps')"
proof (induction xs arbitrary: i ps)
  case Nil
  then show ?case by simp
next
  case (Cons b xs)
  then show ?case by (cases b) (simp_all split: option.splits)
qed

text \<open>The two loops on an array with no \<open>maxLength\<close>, over segments none of which is empty.\<close>

lemma validate_loop_all:
  "[] \<notin> set (ctl_blocks c) \<Longrightarrow>
   validate_loop r None c n
     = (if list_all (\<lambda>s. baseValidator r (Some s)) (drop (ctl_i c) (ctl_blocks c))
        then Some (n + (length (ctl_blocks c) - ctl_i c)) else None)"
proof (induction r "None :: nat option" c n rule: validate_loop.induct)
  case (1 r c n)
  show ?case
  proof (cases "ctl_i c < length (ctl_blocks c)")
    case False
    then show ?thesis
      by (subst validate_loop.simps) (simp add: getInput_def at_def falsy_def)
  next
    case True
    then have d: "drop (ctl_i c) (ctl_blocks c) = ctl_blocks c ! ctl_i c # drop (Suc (ctl_i c)) (ctl_blocks c)"
      by (simp add: Cons_nth_drop_Suc)
    have ne: "ctl_blocks c ! ctl_i c \<noteq> []" using True "1.prems" by (metis nth_mem)
    have g: "getInput c = Some (ctl_blocks c ! ctl_i c)" using True by (simp add: getInput_def at_def)
    show ?thesis
    proof (cases "baseValidator r (Some (ctl_blocks c ! ctl_i c))")
      case False
      then show ?thesis using g ne d
        by (subst validate_loop.simps) (simp add: falsy_def below_max_def)
    next
      case valid: True
      have "validate_loop r None (advance c) (Suc n)
              = (if list_all (\<lambda>s. baseValidator r (Some s)) (drop (Suc (ctl_i c)) (ctl_blocks c))
                 then Some (Suc n + (length (ctl_blocks c) - Suc (ctl_i c))) else None)"
        using "1.hyps" g ne valid "1.prems" by (simp add: falsy_def below_max_def advance_def)
      moreover have "Suc n + (length (ctl_blocks c) - Suc (ctl_i c)) = n + (length (ctl_blocks c) - ctl_i c)"
        using True by arith
      ultimately have "validate_loop r None (advance c) (Suc n)
              = (if list_all (\<lambda>s. baseValidator r (Some s)) (drop (Suc (ctl_i c)) (ctl_blocks c))
                 then Some (n + (length (ctl_blocks c) - ctl_i c)) else None)"
        by (simp only:)
      then show ?thesis using g ne valid
        by (subst validate_loop.simps, subst d) (simp add: falsy_def below_max_def)
    qed
  qed
qed

lemma parse_loop_all:
  "[] \<notin> set (ctl_blocks c) \<Longrightarrow>
   parse_loop r None c result
     = result @ map (\<lambda>s. baseParser r (Some s)) (drop (ctl_i c) (ctl_blocks c))"
proof (induction r "None :: nat option" c result rule: parse_loop.induct)
  case (1 r c result)
  show ?case
  proof (cases "ctl_i c < length (ctl_blocks c)")
    case False
    then show ?thesis
      by (subst parse_loop.simps) (simp add: getInput_def at_def falsy_def)
  next
    case True
    then have d: "drop (ctl_i c) (ctl_blocks c) = ctl_blocks c ! ctl_i c # drop (Suc (ctl_i c)) (ctl_blocks c)"
      by (simp add: Cons_nth_drop_Suc)
    have ne: "ctl_blocks c ! ctl_i c \<noteq> []" using True "1.prems" by (metis nth_mem)
    have g: "getInput c = Some (ctl_blocks c ! ctl_i c)" using True by (simp add: getInput_def at_def)
    have "parse_loop r None (advance c) (result @ [baseParser r (getInput c)])
            = (result @ [baseParser r (getInput c)])
              @ map (\<lambda>s. baseParser r (Some s)) (drop (Suc (ctl_i c)) (ctl_blocks c))"
      using "1.hyps" g ne "1.prems" by (simp add: falsy_def below_max_def advance_def)
    then show ?thesis using g ne d
      by (subst parse_loop.simps) (simp add: falsy_def below_max_def)
  qed
qed

lemma array_validator_all:
  assumes "array r = Some \<lparr>minLength = m, maxLength = None\<rparr>" "[] \<notin> set raw"
  shows "generateValidator r (createControls raw i)
           = (list_all (\<lambda>s. baseValidator r (Some s)) (drop i raw)
              \<and> min_or_0 m \<le> length raw - i)"
  using assms
  by (auto simp: generateValidator_def validate_loop_all createControls_def above_max_def)

lemma array_parser_all:
  assumes "array r = Some \<lparr>minLength = m, maxLength = None\<rparr>" "[] \<notin> set raw"
  shows "generateParser r (createControls raw i)
           = (if length raw - i < min_or_0 m then VUndefined
              else VArr (map (\<lambda>s. baseParser r (Some s)) (drop i raw)))"
  using assms
  by (simp add: generateParser_def parse_loop_all createControls_def above_max_def Let_def)

section \<open>What the compiler emits\<close>

lemma match_here_name: "match_here s = Some m \<Longrightarrow> m_name m \<noteq> []"
  by (auto simp: match_here_def split: list.splits if_splits option.splits)

lemma regexp_match_name: "regexp_match s = Some m \<Longrightarrow> m_name m \<noteq> []"
  by (induction s) (auto split: option.splits dest: match_here_name)

lemma compile_blocks_never_raises: "\<exists>blocks. compile_blocks t toks = Inr blocks"
proof (induction toks)
  case Nil
  then show ?case by simp
next
  case (Cons b toks)
  then obtain blocks where "compile_blocks t toks = Inr blocks" by blast
  then show ?case by (auto split: option.splits dest: regexp_match_name)
qed

lemma compile_never_raises: "\<exists>blocks. compile t = Inr blocks"
  unfolding compile_def by (rule compile_blocks_never_raises)

lemma no_colon_no_match: "colon \<notin> set tok \<Longrightarrow> regexp_match tok = None"
  by (induction tok) (auto simp: match_here_def)

lemma literal_token_compiled:
  "tok \<noteq> [] \<Longrightarrow> regexp_match tok = None \<Longrightarrow>
   compile_blocks t (tok # toks)
     = (case compile_blocks t toks of Inl e \<Rightarrow> Inl e | Inr r \<Rightarrow> Inr (Part tok # r))"
  by simp

lemma part_matched_verbatim:
  "parse_blocks blocks raw i ps = Some ps' \<Longrightarrow> k < length blocks \<Longrightarrow> blocks ! k = Part v \<Longrightarrow>
   at raw (i + k) = Some v"
proof (induction blocks arbitrary: i ps k)
  case Nil
  then show ?case by simp
next
  case (Cons b blocks)
  show ?case
  proof (cases k)
    case 0
    then show ?thesis using Cons.prems by (cases b) (auto split: if_splits)
  next
    case (Suc j)
    then obtain ps1 where "parse_blocks blocks raw (Suc i) ps1 = Some ps'"
      using Cons.prems(1) by (cases b) (auto split: if_splits)
    then show ?thesis using Cons.IH[of "Suc i" ps1 j] Cons.prems Suc by simp
  qed
qed

section \<open>What the builder raises\<close>






section \<open>Templates of literals, and the template of one parameter\<close>

lemma compile_blocks_parts:
  "compile_blocks t toks = Inr blocks \<Longrightarrow> \<forall>b\<in>set blocks. \<not> is_parameter b \<Longrightarrow>
   blocks = map Part (filter_Boolean toks)"
proof (induction toks arbitrary: blocks)
  case Nil
  then show ?case by (simp add: filter_Boolean_def)
next
  case (Cons tok toks)
  show ?case
  proof (cases "tok = []")
    case True
    then show ?thesis using Cons by (simp add: filter_Boolean_def)
  next
    case False
    then obtain rest where r: "compile_blocks t toks = Inr rest" "blocks = Part tok # rest"
      using Cons.prems by (auto split: option.splits sum.splits if_splits)
    then have "rest = map Part (filter_Boolean toks)" using Cons.IH Cons.prems(2) by simp
    then show ?thesis using r False by (simp add: filter_Boolean_def)
  qed
qed

lemma build_blocks_parts: "build_blocks (map Part ws) ps = Inr ws"
  by (induction ws) simp_all

lemma parse_blocks_parts:
  "parse_blocks (map Part ws) (pre @ ws) (length pre) ps = Some ps"
proof (induction ws arbitrary: pre)
  case Nil
  then show ?case by simp
next
  case (Cons w ws)
  have "parse_blocks (map Part ws) ((pre @ [w]) @ ws) (length (pre @ [w])) ps = Some ps"
    by (rule Cons.IH)
  then show ?case by (simp add: at_def nth_append)
qed

lemma segments_single: "w \<noteq> [] \<Longrightarrow> slash \<notin> set w \<Longrightarrow> segments w = [w]"
  by (simp add: segments_def filter_Boolean_def js_split_no_sep)

lemma id_template_compiles:
  assumes "lit \<noteq> []" "slash \<notin> set lit" "regexp_match lit = None"
  shows "compile (slash # lit @ ustr ''/:id'')
           = Inr [Part lit,
                  Parameter (ustr ''id'') \<lparr>required = True, vtype = TString, array = None\<rparr>]"
proof -
  have "segments (slash # lit @ ustr ''/:id'') = segments [] @ segments lit @ segments (ustr '':id'')"
    using segments_append[of "[]" "lit @ slash # ustr '':id''"] segments_append[of lit "ustr '':id''"]
    by (simp add: ustr_def)
  moreover have "segments (ustr '':id'') = [ustr '':id'']"
    by (simp add: segments_def filter_Boolean_def ustr_def)
  moreover have "segments [] = []" by (simp add: segments_def filter_Boolean_def)
  ultimately have s: "segments (slash # lit @ ustr ''/:id'') = [lit, ustr '':id'']"
    using assms(1,2) by (simp add: segments_single)
  have m: "regexp_match (ustr '':id'')
             = Some \<lparr>m_name = ustr ''id'', m_generic = None, m_modificator = None\<rparr>"
    by (simp add: ustr_def match_here_def is_word_def match_generic_def match_modificator_def)
  have r: "make_rules \<lparr>m_name = ustr ''id'', m_generic = None, m_modificator = None\<rparr>
             = \<lparr>required = True, vtype = TString, array = None\<rparr>"
    by (simp add: make_rules_def generic_type_def falsy_def apply_modificator_def)
  have ne: "ustr '':id'' \<noteq> []" "ustr ''id'' \<noteq> []" by (simp_all add: ustr_def)
  show ?thesis
    unfolding compile_def s using assms(1,3) m r ne by simp
qed

section \<open>The claims\<close>

subsection \<open>C1\<close>

text \<open>
  C1, as the code has it. Take a template \<open>/lit/:id\<close> whose literal segment \<open>lit\<close> is
  well-formed, and a non-empty well-formed string \<open>v\<close> with no \<open>/\<close> in it. Then
  \<open>build\<close> of a record whose \<open>id\<close> is \<open>v\<close> returns a path \<open>p\<close>, and \<open>parse(p)\<close>
  succeeds with the parameters \<open>{id: v}\<close>.
\<close>

theorem id_parameter_round_trip:
  assumes "lit \<noteq> []" "slash \<notin> set lit" "regexp_match lit = None" "isWellFormed lit"
    and "v \<noteq> []" "slash \<notin> set v" "isWellFormed v"
    and "m (ustr ''id'') = Some (VStr v)"
  shows "\<exists>p. compile_build (slash # lit @ ustr ''/:id'') (Some m) = Inr p
           \<and> compile_parse (slash # lit @ ustr ''/:id'') p
               = Inr (Some \<lparr>path = p, params = Some [ustr ''id'' \<mapsto> VStr v]\<rparr>)"
proof -
  let ?r = "\<lparr>required = True, vtype = TString, array = None\<rparr>"
  let ?blocks = "[Part lit, Parameter (ustr ''id'') ?r]"
  let ?text = "slash # lit @ slash # v"
  note c = id_template_compiles[OF assms(1-3)]
  have "isWellFormed ?text"
    using assms(4,7) by (simp add: not_surrogate_slash isWellFormed_append)
  then obtain p where p: "encodeURI ?text = Inr p" and d: "decodeURI p = Inr ?text"
    using encodeURI_decodeURI_wf by blast
  have bb: "build_blocks ?blocks (Some m) = Inr [lit, v]"
    using assms(5,8) by (simp add: property_def)
  have b: "build ?blocks (Some m) = Inr p"
    using p assms(1,5) unfolding build_def bb by (simp add: filter_Boolean_def del: encodeURI.simps)
  have s: "segments ?text = [lit, v]"
    using segments_slash_join[of "[lit, v]"] assms(1,2,5,6) by simp
  have "parse_blocks ?blocks [lit, v] 0 None = Some (Some [ustr ''id'' \<mapsto> VStr v])"
    using assms(5)
    by (simp add: at_def single_validator_at single_parser_at falsy_def baseValidator_def
        baseParser_def assign_def)
  then have "parse ?blocks p = Inr (Some \<lparr>path = p, params = Some [ustr ''id'' \<mapsto> VStr v]\<rparr>)"
    using d s by (simp add: parse_def)
  with b show ?thesis unfolding compile_build_def compile_parse_def c by auto
qed

theorem id_parameter_round_trip_witness:
  "compile_build (slash # ustr ''profile'' @ ustr ''/:id'') (Some [ustr ''id'' \<mapsto> VStr (ustr ''a b'')])
     = Inr (ustr ''/profile/a%20b'')
   \<and> compile_parse (slash # ustr ''profile'' @ ustr ''/:id'') (ustr ''/profile/a%20b'')
     = Inr (Some \<lparr>path = ustr ''/profile/a%20b'',
                   params = Some [ustr ''id'' \<mapsto> VStr (ustr ''a b'')]\<rparr>)"
proof -
  have h: "ustr ''profile'' \<noteq> []" "slash \<notin> set (ustr ''profile'')"
    "regexp_match (ustr ''profile'') = None" "isWellFormed (ustr ''profile'')"
    "ustr ''a b'' \<noteq> []" "slash \<notin> set (ustr ''a b'')" "isWellFormed (ustr ''a b'')"
    "[ustr ''id'' \<mapsto> VStr (ustr ''a b'')] (ustr ''id'') = Some (VStr (ustr ''a b''))"
    by (simp_all add: ustr_def match_here_def is_lead_def is_trail_def)
  obtain p where p: "compile_build (slash # ustr ''profile'' @ ustr ''/:id'')
                       (Some [ustr ''id'' \<mapsto> VStr (ustr ''a b'')]) = Inr p"
    and q: "compile_parse (slash # ustr ''profile'' @ ustr ''/:id'') p
              = Inr (Some \<lparr>path = p, params = Some [ustr ''id'' \<mapsto> VStr (ustr ''a b'')]\<rparr>)"
    using id_parameter_round_trip[of "ustr ''profile''" "ustr ''a b''"
            "[ustr ''id'' \<mapsto> VStr (ustr ''a b'')]", OF h]
    by blast
  have "compile_build (slash # ustr ''profile'' @ ustr ''/:id'')
          (Some [ustr ''id'' \<mapsto> VStr (ustr ''a b'')]) = Inr (ustr ''/profile/a%20b'')"
    by (simp add: compile_build_def compile_eval) (simp add: build_eval)
  with p have "p = ustr ''/profile/a%20b''" by simp
  with p q show ?thesis by simp
qed

text \<open>
  C1 as it was stated fails on a value that holds a \<open>/\<close>: \<open>encodeURI\<close> keeps it, so
  \<open>build({id: 'a/b'})\<close> is \<open>/profile/a/b\<close>, and \<open>parse\<close> of that gives \<open>id\<close> the value
  \<open>'a'\<close>.
\<close>

theorem id_parameter_slash_counterexample:
  "compile_build (ustr ''/profile/:id'') (Some [ustr ''id'' \<mapsto> VStr (ustr ''a/b'')])
     = Inr (ustr ''/profile/a/b'')
   \<and> compile_parse (ustr ''/profile/:id'') (ustr ''/profile/a/b'')
     = Inr (Some \<lparr>path = ustr ''/profile/a/b'',
                   params = Some [ustr ''id'' \<mapsto> VStr (ustr ''a'')]\<rparr>)
   \<and> VStr (ustr ''a'') \<noteq> VStr (ustr ''a/b'')"
proof -
  have "compile_build (ustr ''/profile/:id'') (Some [ustr ''id'' \<mapsto> VStr (ustr ''a/b'')])
     = Inr (ustr ''/profile/a/b'')"
    by (simp add: compile_build_def compile_eval) (simp add: build_eval)
  moreover have "compile_parse (ustr ''/profile/:id'') (ustr ''/profile/a/b'')
     = Inr (Some \<lparr>path = ustr ''/profile/a/b'',
                   params = Some [ustr ''id'' \<mapsto> VStr (ustr ''a'')]\<rparr>)"
    by (simp add: compile_parse_def compile_eval) (simp add: parse_eval)
  moreover have "VStr (ustr ''a'') \<noteq> VStr (ustr ''a/b'')" by (simp add: ustr_def)
  ultimately show ?thesis by blast
qed

text \<open>
  The literal has to be well-formed as well: a surrogate without its partner in it makes
  \<open>build\<close> raise \<open>URIError\<close>.
\<close>

lemma id_parameter_lone_surrogate_literal:
  "compile_build ([slash, 0xD800] @ ustr ''/:id'') (Some [ustr ''id'' \<mapsto> VStr (ustr ''7'')])
     = Inl URIError"
  by (simp add: compile_build_def compile_eval) (simp add: build_eval)

subsection \<open>C2\<close>

text \<open>
  C2, as the code has it. For a template whose final block is a \<open>*\<close> parameter,
  \<open>parse\<close> hands that block every raw segment from its position to the end of the input
  and validates each against the base rule. When one of them fails base validation the
  whole parse returns \<open>null\<close>; it does not merely end the run. Otherwise, when the
  blocks before it match, the parse succeeds and the parameter is the array of all these
  segments, each parsed by the base rule; the array may be empty. (\<open>pre\<close> are the blocks
  before the final one.)
\<close>

theorem zero_or_more_takes_every_segment:
  assumes "array r = Some \<lparr>minLength = None, maxLength = None\<rparr>"
    and "decodeURI input = Inr decoded"
  shows "parse (pre @ [Parameter n r]) input =
     (case parse_blocks pre (segments decoded) 0 None of
        None \<Rightarrow> Inr None
      | Some ps \<Rightarrow>
          if list_all (\<lambda>s. baseValidator r (Some s)) (drop (length pre) (segments decoded))
          then Inr (Some \<lparr>path = input,
                 params = assign ps n
                   (VArr (map (\<lambda>s. baseParser r (Some s))
                            (drop (length pre) (segments decoded))))\<rparr>)
          else Inr None)"
proof -
  have ne: "[] \<notin> set (segments decoded)" using segments_pieces by blast
  show ?thesis
    using assms(2)
    by (simp add: parse_def parse_blocks_append array_validator_all[OF assms(1) ne]
        array_parser_all[OF assms(1) ne] min_or_0_def split: option.splits)
qed

theorem zero_or_more_takes_every_segment_witness:
  "parse [Part (ustr ''profile''),
          Parameter (ustr ''id'')
            \<lparr>required = True, vtype = TNumber,
               array = Some \<lparr>minLength = None, maxLength = None\<rparr>\<rparr>]
     (ustr ''/profile/1/2'')
   = Inr (Some \<lparr>path = ustr ''/profile/1/2'',
                 params = Some [ustr ''id'' \<mapsto> VArr [VNum 1, VNum 2]]\<rparr>)"
proof -
  let ?r = "\<lparr>required = True, vtype = TNumber,
              array = Some \<lparr>minLength = None, maxLength = None\<rparr>\<rparr>"
  have a: "array ?r = Some \<lparr>minLength = None, maxLength = None\<rparr>" by simp
  have d: "decodeURI (ustr ''/profile/1/2'') = Inr (ustr ''/profile/1/2'')"
    by (simp add: ustr_def prepend_def)
  show ?thesis
    using zero_or_more_takes_every_segment[OF a d, of "[Part (ustr ''profile'')]" "ustr ''id''"]
    by (simp add: segments_def filter_Boolean_def ustr_def at_def assign_def baseValidator_def
        baseParser_def falsy_def parseInt_def is_whitespace_def digit_value_def is_digit_def
        digits_value_def)
qed

text \<open>
  C2 as it was stated fails: on \<open>/profile/:id<number>*\<close>, \<open>parse('/profile/1/x')\<close> is
  \<open>null\<close>, not a success with \<open>id = [1]\<close>.
\<close>

theorem zero_or_more_invalid_segment_counterexample:
  "compile_parse (ustr ''/profile/:id<number>*'') (ustr ''/profile/1/x'') = Inr None"
  by (simp add: compile_parse_def compile_eval) (simp add: parse_eval)

subsection \<open>C3\<close>

text \<open>
  C3. The claim asks for a compile error on a parameter token with no name. The code
  raises none, on any template \<open>t\<close>: the regular expression needs a word character
  after the colon, so a token such as \<open>:\<close> or \<open>:-x\<close> does not match at all and is
  compiled as a literal; the \<open>throw\<close> of \<open>compile\<close> cannot be reached.
\<close>

theorem unnamed_parameter_compiles:
  "(\<exists>blocks. compile t = Inr blocks)
   \<and> compile (ustr ''/profile/:'') = Inr [Part (ustr ''profile''), Part (ustr '':'')]
   \<and> compile (ustr ''/profile/:-x'') = Inr [Part (ustr ''profile''), Part (ustr '':-x'')]"
proof -
  have "compile (ustr ''/profile/:'') = Inr [Part (ustr ''profile''), Part (ustr '':'')]"
    by (simp add: compile_eval)
  moreover have
    "compile (ustr ''/profile/:-x'') = Inr [Part (ustr ''profile''), Part (ustr '':-x'')]"
    by (simp add: compile_eval)
  ultimately show ?thesis using compile_never_raises[of t] by blast
qed

subsection \<open>C4\<close>




lemma build_falsy_present_values:
  "compile_build (ustr ''/profile/:id'') (Some [ustr ''id'' \<mapsto> VStr []])
     = Inl (MissingRequired (ustr ''id''))
   \<and> compile_build (ustr ''/profile/:id'') (Some [ustr ''id'' \<mapsto> VBool False])
     = Inl (MissingRequired (ustr ''id''))
   \<and> compile_build (ustr ''/profile/:id<number>'') (Some [ustr ''id'' \<mapsto> VNum 123])
     = Inr (ustr ''/profile/123'')"
  by (simp add: compile_build_def compile_eval) (simp add: build_eval)

subsection \<open>C5\<close>

text \<open>
  C5. The claim has every token that does not begin with a colon compiled to a literal.
  The regular expression is not anchored, so the token \<open>foo:bar\<close> is compiled to a
  parameter named \<open>bar\<close>; the text \<open>foo\<close> is lost, and \<open>parse\<close> accepts any segment at
  that position. (Tokens with no colon are literals, \<open>no_colon_no_match\<close> and
  \<open>literal_token_compiled\<close>, and a literal is matched verbatim,
  \<open>part_matched_verbatim\<close>.)
\<close>

theorem colon_inside_token_is_parameter:
  "compile (ustr ''/foo:bar'')
     = Inr [Parameter (ustr ''bar'') \<lparr>required = True, vtype = TString, array = None\<rparr>]
   \<and> compile_parse (ustr ''/foo:bar'') (ustr ''/foo:bar'')
     = Inr (Some \<lparr>path = ustr ''/foo:bar'',
                   params = Some [ustr ''bar'' \<mapsto> VStr (ustr ''foo:bar'')]\<rparr>)
   \<and> compile_parse (ustr ''/foo:bar'') (ustr ''/other'')
     = Inr (Some \<lparr>path = ustr ''/other'',
                   params = Some [ustr ''bar'' \<mapsto> VStr (ustr ''other'')]\<rparr>)"
  by (simp add: compile_parse_def compile_eval) (simp add: parse_eval)

subsection \<open>C6\<close>

text \<open>
  C6. On the template \<open>/profile/:id+\<close>, \<open>parse('/profile')\<close> returns \<open>null\<close>, and
  \<open>parse('/profile/1/2')\<close> returns the parameters \<open>{id: ['1', '2']}\<close>, in the order of
  the input.
\<close>

theorem one_or_more_parse:
  "compile_parse (ustr ''/profile/:id+'') (ustr ''/profile'') = Inr None
   \<and> compile_parse (ustr ''/profile/:id+'') (ustr ''/profile/1/2'')
       = Inr (Some \<lparr>path = ustr ''/profile/1/2'',
                     params = Some [ustr ''id'' \<mapsto> VArr [VStr (ustr ''1''), VStr (ustr ''2'')]]\<rparr>)"
  by (simp add: compile_parse_def compile_eval) (simp add: parse_eval)

subsection \<open>C7\<close>

text \<open>
  C7. On the template \<open>/profile/:id*\<close>, \<open>parse('/profile')\<close> succeeds with the parameters
  \<open>{id: []}\<close>: the key is bound to the empty array; the result is not \<open>null\<close> and the
  key is not missing.
\<close>

theorem zero_or_more_parse_empty:
  "compile_parse (ustr ''/profile/:id*'') (ustr ''/profile'')
     = Inr (Some \<lparr>path = ustr ''/profile'', params = Some [ustr ''id'' \<mapsto> VArr []]\<rparr>)"
  by (simp add: compile_parse_def compile_eval) (simp add: parse_eval)

subsection \<open>C8\<close>

text \<open>
  C8, as the code has it. For every template that compiles to no parameter block and is a
  well-formed string (no surrogate without its partner), \<open>build\<close>, whatever its
  argument and so also with none, returns a path \<open>p\<close>, and \<open>parse(p)\<close> returns
  \<open>{path: p, params: null}\<close>.
\<close>

theorem static_template_round_trip:
  assumes "compile t = Inr blocks"
    and "\<forall>b\<in>set blocks. \<not> is_parameter b"
    and "isWellFormed t"
  shows "\<exists>p. build blocks ps = Inr p \<and> parse blocks p = Inr (Some \<lparr>path = p, params = None\<rparr>)"
proof -
  let ?ws = "segments t"
  have blocks: "blocks = map Part ?ws"
    using compile_blocks_parts[OF assms(1)[unfolded compile_def] assms(2)]
    by (simp add: filter_Boolean_segments)
  have pieces: "\<forall>w\<in>set ?ws. w \<noteq> [] \<and> slash \<notin> set w" using segments_pieces by blast
  have "isWellFormed (slash # join slash ?ws)"
    using assms(3) by (rule isWellFormed_slash_join_segments)
  then obtain p where p: "encodeURI (slash # join slash ?ws) = Inr p"
    and d: "decodeURI p = Inr (slash # join slash ?ws)"
    using encodeURI_decodeURI_wf by blast
  have b: "build blocks ps = Inr p"
    using p by (simp add: build_def blocks build_blocks_parts filter_Boolean_segments
        del: encodeURI.simps)
  have "parse_blocks (map Part ?ws) ([] @ ?ws) (length ([] :: jsstring list)) None = Some None"
    by (rule parse_blocks_parts)
  then have "parse blocks p = Inr (Some \<lparr>path = p, params = None\<rparr>)"
    using d by (simp add: parse_def blocks segments_slash_join[OF pieces])
  with b show ?thesis by blast
qed

theorem static_template_round_trip_witness:
  "build [Part (ustr ''profile'')] None = Inr (ustr ''/profile'')
   \<and> parse [Part (ustr ''profile'')] (ustr ''/profile'')
       = Inr (Some \<lparr>path = ustr ''/profile'', params = None\<rparr>)"
proof -
  have c: "compile (ustr ''/profile'') = Inr [Part (ustr ''profile'')]"
    by (simp add: compile_eval)
  have n: "\<forall>b\<in>set [Part (ustr ''profile'')]. \<not> is_parameter b" by simp
  have w: "isWellFormed (ustr ''/profile'')" by (simp add: ustr_def is_lead_def is_trail_def)
  obtain p where p: "build [Part (ustr ''profile'')] None = Inr p"
    and q: "parse [Part (ustr ''profile'')] p = Inr (Some \<lparr>path = p, params = None\<rparr>)"
    using static_template_round_trip[OF c n w, of None] by blast
  have "build [Part (ustr ''profile'')] None = Inr (ustr ''/profile'')"
    by (simp add: build_eval)
  with p have "p = ustr ''/profile''" by simp
  with p q show ?thesis by simp
qed

text \<open>
  C8 as it was stated fails on a template that holds a surrogate without its partner:
  the template compiles to a literal, and \<open>build()\<close> raises \<open>URIError\<close> in \<open>encodeURI\<close>.
\<close>

theorem static_template_lone_surrogate_counterexample:
  "compile [slash, 0xD800] = Inr [Part [0xD800]]
   \<and> compile_build [slash, 0xD800] None = Inl URIError"
  by (simp add: compile_build_def compile_eval) (simp add: build_eval)

subsection \<open>C9\<close>

text \<open>
  C9. The template \<open>/profile/:id<number>\<close> compiles to a literal and a required number
  parameter; \<open>parse('/profile/123')\<close> gives \<open>id\<close> the number 123; the validator of that
  parameter accepts the segment at its position exactly when the segment is there and
  \<open>parseInt\<close> of it is not \<open>NaN\<close>; so \<open>12abc\<close> is accepted and parses to 12.
\<close>

theorem number_parameter:
  "compile (ustr ''/profile/:id<number>'')
     = Inr [Part (ustr ''profile''),
            Parameter (ustr ''id'') \<lparr>required = True, vtype = TNumber, array = None\<rparr>]
   \<and> compile_parse (ustr ''/profile/:id<number>'') (ustr ''/profile/123'')
     = Inr (Some \<lparr>path = ustr ''/profile/123'', params = Some [ustr ''id'' \<mapsto> VNum 123]\<rparr>)
   \<and> generateValidator \<lparr>required = True, vtype = TNumber, array = None\<rparr> (createControls raw i)
     = (case at raw i of None \<Rightarrow> False | Some s \<Rightarrow> s \<noteq> [] \<and> parseInt s \<noteq> VNaN)
   \<and> compile_parse (ustr ''/profile/:id<number>'') (ustr ''/profile/12abc'')
     = Inr (Some \<lparr>path = ustr ''/profile/12abc'', params = Some [ustr ''id'' \<mapsto> VNum 12]\<rparr>)"
proof -
  have c: "compile (ustr ''/profile/:id<number>'')
     = Inr [Part (ustr ''profile''),
            Parameter (ustr ''id'') \<lparr>required = True, vtype = TNumber, array = None\<rparr>]"
    by (simp add: compile_eval)
  have v: "generateValidator \<lparr>required = True, vtype = TNumber, array = None\<rparr> (createControls raw i)
     = (case at raw i of None \<Rightarrow> False | Some s \<Rightarrow> s \<noteq> [] \<and> parseInt s \<noteq> VNaN)"
    by (simp add: single_validator_at baseValidator_def falsy_def split: option.splits)
  have p1: "compile_parse (ustr ''/profile/:id<number>'') (ustr ''/profile/123'')
     = Inr (Some \<lparr>path = ustr ''/profile/123'', params = Some [ustr ''id'' \<mapsto> VNum 123]\<rparr>)"
    unfolding compile_parse_def c by (simp add: parse_eval)
  have p2: "compile_parse (ustr ''/profile/:id<number>'') (ustr ''/profile/12abc'')
     = Inr (Some \<lparr>path = ustr ''/profile/12abc'', params = Some [ustr ''id'' \<mapsto> VNum 12]\<rparr>)"
    unfolding compile_parse_def c by (simp add: parse_eval)
  show ?thesis using c v p1 p2 by (simp only: simp_thms)
qed

subsection \<open>C10\<close>

text \<open>
  C10, as the code has it. Let the template have no \<open>*\<close> or \<open>+\<close> parameter at all, let
  \<open>parse(p)\<close> succeed, and let \<open>p\<close> have at least as many raw segments as the template
  has blocks. Then \<open>parse\<close> of \<open>p\<close> followed by \<open>/\<close> and further text that
  \<open>decodeURI\<close> accepts succeeds with the same parameters: the surplus segments are not
  looked at.
\<close>

theorem surplus_segments_ignored:
  assumes "\<forall>b\<in>set blocks. \<not> is_array_block b"
    and "decodeURI p = Inr decoded"
    and "length blocks \<le> length (segments decoded)"
    and "decodeURI extra = Inr decoded'"
    and "parse blocks p = Inr (Some res)"
  shows "parse blocks (p @ slash # extra)
           = Inr (Some \<lparr>path = p @ slash # extra, params = params res\<rparr>)"
proof -
  have "decodeURI (slash # extra) = Inr (slash # decoded')"
    using assms(4) by (simp add: prepend_def)
  then have d: "decodeURI (p @ slash # extra) = Inr (decoded @ slash # decoded')"
    using decodeURI_append[OF assms(2), of "slash # extra"] by (simp add: prepend_def)
  have "parse_blocks blocks (segments decoded @ segments decoded') 0 None
          = parse_blocks blocks (segments decoded) 0 None"
    using assms(1,3) by (intro parse_blocks_extra) simp_all
  then show ?thesis
    using assms(2,5) d by (auto simp: parse_def segments_append split: option.splits)
qed

theorem surplus_segments_ignored_witness:
  "parse [Part (ustr ''profile''),
          Parameter (ustr ''id'') \<lparr>required = True, vtype = TString, array = None\<rparr>]
     (ustr ''/profile/7'' @ slash # ustr ''extra'')
   = Inr (Some \<lparr>path = ustr ''/profile/7'' @ slash # ustr ''extra'',
                 params = Some [ustr ''id'' \<mapsto> VStr (ustr ''7'')]\<rparr>)"
proof -
  let ?blocks = "[Part (ustr ''profile''),
          Parameter (ustr ''id'') \<lparr>required = True, vtype = TString, array = None\<rparr>]"
  have a: "\<forall>b\<in>set ?blocks. \<not> is_array_block b" by simp
  have d: "decodeURI (ustr ''/profile/7'') = Inr (ustr ''/profile/7'')"
    by (simp add: ustr_def prepend_def)
  have l: "length ?blocks \<le> length (segments (ustr ''/profile/7''))"
    by (simp add: segments_def filter_Boolean_def ustr_def)
  have e: "decodeURI (ustr ''extra'') = Inr (ustr ''extra'')"
    by (simp add: ustr_def prepend_def)
  have p: "parse ?blocks (ustr ''/profile/7'')
             = Inr (Some \<lparr>path = ustr ''/profile/7'',
                           params = Some [ustr ''id'' \<mapsto> VStr (ustr ''7'')]\<rparr>)"
    by (simp add: parse_eval)
  show ?thesis using surplus_segments_ignored[OF a d l e p] by simp
qed

text \<open>
  C10 as it was stated fails on a template that ends in an optional parameter: on
  \<open>/profile/:id?\<close>, \<open>parse('/profile')\<close> gives \<open>id\<close> the value \<open>undefined\<close>, and
  \<open>parse('/profile/extra')\<close> gives it \<open>'extra'\<close>.
\<close>

theorem surplus_segment_fills_optional_counterexample:
  "compile_parse (ustr ''/profile/:id?'') (ustr ''/profile'')
     = Inr (Some \<lparr>path = ustr ''/profile'', params = Some [ustr ''id'' \<mapsto> VUndefined]\<rparr>)
   \<and> compile_parse (ustr ''/profile/:id?'') (ustr ''/profile'' @ ustr ''/extra'')
     = Inr (Some \<lparr>path = ustr ''/profile'' @ ustr ''/extra'',
                   params = Some [ustr ''id'' \<mapsto> VStr (ustr ''extra'')]\<rparr>)
   \<and> [ustr ''id'' \<mapsto> VUndefined] \<noteq> [ustr ''id'' \<mapsto> VStr (ustr ''extra'')]"
proof -
  have "[ustr ''id'' \<mapsto> VUndefined] (ustr ''id'') \<noteq> [ustr ''id'' \<mapsto> VStr (ustr ''extra'')] (ustr ''id'')"
    by simp
  then have "[ustr ''id'' \<mapsto> VUndefined] \<noteq> [ustr ''id'' \<mapsto> VStr (ustr ''extra'')]"
    by metis
  moreover have "compile_parse (ustr ''/profile/:id?'') (ustr ''/profile'')
     = Inr (Some \<lparr>path = ustr ''/profile'', params = Some [ustr ''id'' \<mapsto> VUndefined]\<rparr>)"
    by (simp add: compile_parse_def compile_eval) (simp add: parse_eval)
  moreover have "compile_parse (ustr ''/profile/:id?'') (ustr ''/profile'' @ ustr ''/extra'')
     = Inr (Some \<lparr>path = ustr ''/profile'' @ ustr ''/extra'',
                   params = Some [ustr ''id'' \<mapsto> VStr (ustr ''extra'')]\<rparr>)"
    by (simp add: compile_parse_def compile_eval) (simp add: parse_eval)
  ultimately show ?thesis by blast
qed

text \<open>
  Two more ways a surplus segment is seen: a \<open>*\<close> parameter that is not the last block
  takes it into its array, and an escape that is cut short makes \<open>decodeURI\<close> raise.
\<close>

lemma surplus_segment_joins_inner_array:
  "compile_parse (ustr ''/:id*/x'') (ustr ''/1/x'')
     = Inr (Some \<lparr>path = ustr ''/1/x'',
                   params = Some [ustr ''id'' \<mapsto> VArr [VStr (ustr ''1''), VStr (ustr ''x'')]]\<rparr>)
   \<and> compile_parse (ustr ''/:id*/x'') (ustr ''/1/x/extra'')
     = Inr (Some \<lparr>path = ustr ''/1/x/extra'',
                   params = Some [ustr ''id'' \<mapsto>
                     VArr [VStr (ustr ''1''), VStr (ustr ''x''), VStr (ustr ''extra'')]]\<rparr>)"
  by (simp add: compile_parse_def compile_eval) (simp add: parse_eval)

lemma surplus_segment_malformed_escape:
  "compile_parse (ustr ''/profile'') (ustr ''/profile'')
     = Inr (Some \<lparr>path = ustr ''/profile'', params = None\<rparr>)
   \<and> compile_parse (ustr ''/profile'') (ustr ''/profile/%'') = Inl URIError"
  by (simp add: compile_parse_def compile_eval) (simp add: parse_eval)

end
